theory Spec2Isabelle
  imports Main "HOL-Library.Word" "HOL-Library.Sublist"
begin

section \<open>JavaScript values\<close>

text \<open>
  A JavaScript string is a sequence of 16-bit code units. String literals of the
  source are written with \<open>lit\<close>.
\<close>

type_synonym jstring = "16 word list"

definition lit :: "string \<Rightarrow> jstring" where
  "lit s = map of_char s"

text \<open>
  The values the server handles come out of \<open>JSON.parse\<close>, the query-string parser
  or a property read (\<open>undefined\<close>). An object is the list of its own properties.
  Numbers are only ever tested for truthiness or passed on, so an integer stands for
  them.
\<close>

datatype jsval =
    Undefined
  | Null
  | Bool bool
  | Num int
  | Str jstring
  | Arr "jsval list"
  | Obj "(jstring \<times> jsval) list"

datatype error =
    TypeError
  | Error jstring
  | InvalidDigest
  | HeadersSent
  | Reason jsval

fun truthy :: "jsval \<Rightarrow> bool" where
  "truthy Undefined = False"
| "truthy Null = False"
| "truthy (Bool b) = b"
| "truthy (Num n) = (n \<noteq> 0)"
| "truthy (Str s) = (s \<noteq> [])"
| "truthy (Arr xs) = True"
| "truthy (Obj kvs) = True"

definition lookup :: "(jstring \<times> jsval) list \<Rightarrow> jstring \<Rightarrow> jsval" where
  "lookup kvs k = (case map_of kvs k of None \<Rightarrow> Undefined | Some v \<Rightarrow> v)"

text \<open>
  \<open>v.name\<close> for the property names the server reads (none of them is defined on a
  prototype): a TypeError on \<open>undefined\<close> and \<open>null\<close>, the own property of an
  object, \<open>undefined\<close> on every other value.
\<close>

fun get_prop :: "jsval \<Rightarrow> jstring \<Rightarrow> error + jsval" where
  "get_prop Undefined k = Inl TypeError"
| "get_prop Null k = Inl TypeError"
| "get_prop (Obj kvs) k = Inr (lookup kvs k)"
| "get_prop v k = Inr Undefined"

section \<open>Effects and control flow\<close>

text \<open>
  A task is a call of one of the two asynchronous event handlers. The webhook route
  calls them without awaiting the promise they return.
\<close>

datatype task = ReceivedMessage jsval | ReceivedPostback jsval

text \<open>
  What the server does to the outside, in the order it does it: a line written by
  \<open>logger.write\<close>, \<open>res.status(n).send(v)\<close>, the answer of the framework's error
  handler, a handler called and left running, and the calls to the modules
  \<open>send\<close>, \<open>userDB\<close>, \<open>changeLanguage\<close> and \<open>translator\<close>. Console output under
  \<open>DEBUG\<close> does not influence control flow and is left out.
\<close>

datatype effect =
    Log jsval
  | LogError error
  | Respond nat jsval
  | ErrorResponse nat
  | Spawn task
  | Send jsval jsval "jstring option"
  | GetUser jsval
  | AddUser jsval
  | ChangeLanguage jsval jsval jsval
  | Translate jsval jsval jsval

datatype 'a result = Ok 'a | Threw error

type_synonym 'a act = "effect list \<Rightarrow> effect list \<times> 'a result"

definition ret :: "'a \<Rightarrow> 'a act" where
  "ret a tr = (tr, Ok a)"

definition throw :: "error \<Rightarrow> 'a act" where
  "throw e tr = (tr, Threw e)"

definition seq :: "'a act \<Rightarrow> ('a \<Rightarrow> 'b act) \<Rightarrow> 'b act" where
  "seq m f tr = (case m tr of (tr', Ok a) \<Rightarrow> f a tr' | (tr', Threw e) \<Rightarrow> (tr', Threw e))"

definition emit :: "effect \<Rightarrow> unit act" where
  "emit eff tr = (tr @ [eff], Ok ())"

definition lift :: "error + 'a \<Rightarrow> 'a act" where
  "lift r tr = (case r of Inl e \<Rightarrow> (tr, Threw e) | Inr a \<Rightarrow> (tr, Ok a))"

definition logger_write :: "jsval \<Rightarrow> unit act" where
  "logger_write v = emit (Log v)"

fun is_response :: "effect \<Rightarrow> bool" where
  "is_response (Respond n v) = True"
| "is_response (ErrorResponse n) = True"
| "is_response eff = False"

text \<open>
  \<open>res.status(n).send(v)\<close>: Node refuses a second response on the same request
  (\<open>ERR_HTTP_HEADERS_SENT\<close>).
\<close>

definition res_send :: "nat \<Rightarrow> jsval \<Rightarrow> unit act" where
  "res_send n v tr =
     (if list_ex is_response tr then (tr, Threw HeadersSent)
      else (tr @ [Respond n v], Ok ()))"

section \<open>Configuration\<close>

text \<open>
  The environment-derived constants of \<open>server.js\<close>, and the two library functions
  the request pipeline depends on: \<open>hmac method key buf\<close> is
  \<open>crypto.createHmac(method, key).update(buf).digest('hex')\<close>, \<open>None\<close> when
  \<open>createHmac\<close> throws on a digest name it does not know; \<open>json_parse\<close> is the
  parser of \<open>express.json\<close>, \<open>None\<close> on a body it rejects.
\<close>

record config =
  VALIDATION_TOKEN :: jstring
  APP_SECRET :: jstring
  hmac :: "jstring \<Rightarrow> jstring \<Rightarrow> 8 word list \<Rightarrow> jstring option"
  json_parse :: "8 word list \<Rightarrow> jsval option"

section \<open>String.prototype.split\<close>

text \<open>
  \<open>s.split(sep)\<close> without a limit: the pieces of \<open>s\<close> between the occurrences of
  \<open>sep\<close>, found from left to right without overlap; the empty separator cuts
  between all code units. \<open>acc\<close> holds the current piece, reversed.
\<close>

function split_from :: "jstring \<Rightarrow> jstring \<Rightarrow> jstring \<Rightarrow> jstring list" where
  "split_from sep [] acc = [rev acc]"
| "split_from sep (x # xs) acc =
     (if sep \<noteq> [] \<and> take (length sep) (x # xs) = sep
      then rev acc # split_from sep (drop (length sep) (x # xs)) []
      else split_from sep xs (x # acc))"
  by pat_completeness auto
termination
  by (relation "measure (\<lambda>(sep, s, acc). length s)") auto

definition split :: "jstring \<Rightarrow> jstring \<Rightarrow> jstring list" where
  "split s sep = (if sep = [] then map (\<lambda>c. [c]) s else split_from sep s [])"

text \<open>\<open>xs[i]\<close> on an array of strings: \<open>undefined\<close> past the end.\<close>

definition index :: "jstring list \<Rightarrow> nat \<Rightarrow> jsval" where
  "index xs i = (if i < length xs then Str (xs ! i) else Undefined)"

section \<open>Signature verification\<close>

text \<open>
  A POST request: the value of \<open>req.get('x-hub-signature')\<close> (\<open>None\<close> for
  \<open>undefined\<close>); whether it has a body of JSON content type, the only kind
  \<open>express.json\<close> reads; the raw body \<open>buf\<close> the parser then hands to the verify
  callback; and \<open>req.body\<close>, which nothing has set when the request arrives.
\<close>

record request =
  x_hub_signature :: "jstring option"
  has_json_body :: bool
  buf :: "8 word list"
  body :: jsval

definition verify :: "config \<Rightarrow> request \<Rightarrow> unit act" where
  "verify cfg req =
     (case x_hub_signature req of
        None \<Rightarrow> throw (Error (lit ''No signature''))
      | Some signature \<Rightarrow>
          if signature = [] then throw (Error (lit ''No signature''))
          else
            let elements = split signature (lit ''='');
                method = index elements 0;
                hash = index elements 1
            in (case method of
                  Str m \<Rightarrow>
                    (case hmac cfg m (APP_SECRET cfg) (buf req) of
                       None \<Rightarrow> throw InvalidDigest
                     | Some expected \<Rightarrow>
                         if hash \<noteq> Str expected then
                           seq (logger_write (Str (lit ''Invalid signature''))) (\<lambda>_.
                           seq (logger_write (Str (lit ''Signature: '' @ signature))) (\<lambda>_.
                           seq (logger_write (Str (lit ''Body:''))) (\<lambda>_.
                           seq (logger_write (body req)) (\<lambda>_.
                           seq (res_send 403 (Str (lit ''Invalid signature''))) (\<lambda>_.
                           throw (Error (lit ''Invalid signature'')))))))
                         else ret ())
                | _ \<Rightarrow> throw TypeError))"

section \<open>POST /webhook\<close>

text \<open>\<open>xs.forEach(f)\<close>: the value \<open>f\<close> returns is dropped; an exception ends the loop.\<close>

fun forEach :: "('a \<Rightarrow> 'b act) \<Rightarrow> 'a list \<Rightarrow> unit act" where
  "forEach f [] tr = (tr, Ok ())"
| "forEach f (x # xs) tr =
     (case f x tr of
        (tr', Ok _) \<Rightarrow> forEach f xs tr'
      | (tr', Threw e) \<Rightarrow> (tr', Threw e))"

text \<open>\<open>v.forEach(f)\<close>: only an array has the method.\<close>

fun js_forEach :: "jsval \<Rightarrow> (jsval \<Rightarrow> 'b act) \<Rightarrow> unit act" where
  "js_forEach (Arr xs) f = forEach f xs"
| "js_forEach v f = throw TypeError"

text \<open>
  The body of the inner loop. Calling an asynchronous function never throws: the call
  is recorded as a spawned task, whose run is \<open>receivedMessage\<close> or
  \<open>receivedPostback\<close> below. \<open>return false\<close> leaves the callback only.
\<close>

definition on_event :: "jsval \<Rightarrow> jsval act" where
  "on_event event =
     seq (lift (get_prop event (lit ''message''))) (\<lambda>message.
     if truthy message then
       seq (emit (Spawn (ReceivedMessage event))) (\<lambda>_. ret Undefined)
     else
       seq (lift (get_prop event (lit ''postback''))) (\<lambda>postback.
       if truthy postback then
         seq (emit (Spawn (ReceivedPostback event))) (\<lambda>_. ret Undefined)
       else
         seq (logger_write (Str (lit ''Unknown/unsupported event''))) (\<lambda>_.
         seq (logger_write (Str (lit ''Event:''))) (\<lambda>_.
         seq (logger_write event) (\<lambda>_.
         seq (res_send 403 (Str (lit ''Unknown/unsupported event''))) (\<lambda>_.
         ret (Bool False)))))))"

definition webhook_post :: "jsval \<Rightarrow> jsval act" where
  "webhook_post data =
     seq (lift (get_prop data (lit ''object''))) (\<lambda>object.
     if object \<noteq> Str (lit ''page'') then
       seq (logger_write (Str (lit ''Object is not a page''))) (\<lambda>_.
       seq (logger_write (Str (lit ''Data:''))) (\<lambda>_.
       seq (logger_write data) (\<lambda>_.
       seq (res_send 403 (Str (lit ''An error has occurred''))) (\<lambda>_.
       ret (Bool False)))))
     else
       seq (lift (get_prop data (lit ''entry''))) (\<lambda>entries.
       seq (js_forEach entries (\<lambda>entry.
              seq (lift (get_prop entry (lit ''messaging''))) (\<lambda>messaging.
              js_forEach messaging on_event))) (\<lambda>_.
       seq (res_send 200 (Str (lit ''Success''))) (\<lambda>_.
       ret (Bool True)))))"

text \<open>
  The path of a POST /webhook request through \<open>express.json\<close> and the route.
  The parser first sets \<open>req.body\<close> to the empty object. A request without a body
  of JSON content type it passes on as it is: the verify callback is not called, and
  the route runs on the empty object. Otherwise it calls \<open>verify\<close> on the raw body
  before it parses; an exception of \<open>verify\<close> becomes an error of status 403 and one
  of the parser an error of status 400, both handed to the framework's error handler,
  which answers with the error's status unless a response has been sent already. The
  route then runs on the parsed body; an exception of the route is an error of status
  500.
\<close>

definition error_handler :: "nat \<Rightarrow> effect list \<Rightarrow> effect list" where
  "error_handler n tr = (if list_ex is_response tr then tr else tr @ [ErrorResponse n])"

definition run_route :: "jsval \<Rightarrow> effect list \<Rightarrow> effect list" where
  "run_route data tr =
     (case webhook_post data tr of
        (tr', Threw e) \<Rightarrow> error_handler 500 tr'
      | (tr', Ok _) \<Rightarrow> tr')"

definition handle_post :: "config \<Rightarrow> request \<Rightarrow> effect list" where
  "handle_post cfg req =
     (let req = req\<lparr>body := Obj []\<rparr>
      in if \<not> has_json_body req then run_route (body req) []
         else
           (case verify cfg req [] of
              (tr, Threw e) \<Rightarrow> error_handler 403 tr
            | (tr, Ok _) \<Rightarrow>
                (case json_parse cfg (buf req) of
                   None \<Rightarrow> error_handler 400 tr
                 | Some data \<Rightarrow> run_route data tr)))"

section \<open>Regular expressions\<close>

text \<open>
  The part of the RegExp language the two patterns of \<open>receivedMessage\<close> use: a
  code unit, \<open>.\<close>, the anchors \<open>^\<close> and \<open>$\<close> (without the \<open>m\<close> flag: start and end of
  the input), concatenation, the greedy quantifiers \<open>?\<close> and \<open>+\<close>, and a numbered
  capture group.
\<close>

datatype regex =
    Char char
  | Dot
  | Bol
  | Eol
  | Cat "regex list"
  | Opt regex
  | Plus regex
  | Group nat regex

text \<open>
  Under the \<open>i\<close> flag two code units match when they canonicalize to the same one.
  Without the \<open>u\<close> flag a code unit from 128 on never canonicalizes to an ASCII one,
  and the patterns hold ASCII only, so upper-casing the ASCII letters decides every
  comparison the patterns make.
\<close>

definition canonicalize :: "bool \<Rightarrow> 16 word \<Rightarrow> 16 word" where
  "canonicalize ignoreCase c =
     (if ignoreCase \<and> 0x61 \<le> c \<and> c \<le> 0x7A then c - 0x20 else c)"

definition line_terminator :: "16 word \<Rightarrow> bool" where
  "line_terminator c = (c = 0x0A \<or> c = 0x0D \<or> c = 0x2028 \<or> c = 0x2029)"

text \<open>
  A matcher state: the index reached, the input left, the captures made (latest
  first). \<open>matches\<close> lists the states a pattern can end in, in the order
  backtracking tries them.
\<close>

type_synonym mstate = "nat \<times> jstring \<times> (nat \<times> jstring) list"

fun repeat :: "(mstate \<Rightarrow> mstate list) \<Rightarrow> nat \<Rightarrow> mstate \<Rightarrow> mstate list" where
  "repeat f 0 st = [st]"
| "repeat f (Suc k) st =
     concat (map (repeat f k) (filter (\<lambda>st'. fst st < fst st') (f st))) @ [st]"

fun matches :: "bool \<Rightarrow> regex \<Rightarrow> mstate \<Rightarrow> mstate list" where
  "matches i (Char c) (n, s, caps) =
     (case s of
        [] \<Rightarrow> []
      | x # xs \<Rightarrow>
          if canonicalize i x = canonicalize i (of_char c) then [(Suc n, xs, caps)] else [])"
| "matches i Dot (n, s, caps) =
     (case s of
        [] \<Rightarrow> []
      | x # xs \<Rightarrow> if line_terminator x then [] else [(Suc n, xs, caps)])"
| "matches i Bol (n, s, caps) = (if n = 0 then [(n, s, caps)] else [])"
| "matches i Eol (n, s, caps) = (if s = [] then [(n, s, caps)] else [])"
| "matches i (Cat []) st = [st]"
| "matches i (Cat (r # rs)) st = concat (map (matches i (Cat rs)) (matches i r st))"
| "matches i (Opt r) st = matches i r st @ [st]"
| "matches i (Plus r) (n, s, caps) =
     concat (map (repeat (\<lambda>st. matches i r st) (length s)) (matches i r (n, s, caps)))"
| "matches i (Group g r) (n, s, caps) =
     map (\<lambda>(n', s', caps'). (n', s', (g, take (n' - n) s) # caps'))
       (matches i r (n, s, caps))"

record regexp =
  source :: regex
  ignoreCase :: bool

text \<open>
  \<open>re.exec(s)\<close> for a pattern without the \<open>g\<close> and \<open>y\<close> flags: the first start index
  with a match, and there the first state of the backtracking order. The result is the
  list of captures, \<open>None\<close> for \<open>null\<close>.
\<close>

fun search :: "regexp \<Rightarrow> jstring \<Rightarrow> nat \<Rightarrow> nat \<Rightarrow> (nat \<times> jstring) list option" where
  "search re s start 0 = None"
| "search re s start (Suc k) =
     (case matches (ignoreCase re) (source re) (start, drop start s, []) of
        [] \<Rightarrow> search re s (Suc start) k
      | (n, rest, caps) # _ \<Rightarrow> Some caps)"

definition exec :: "regexp \<Rightarrow> jstring \<Rightarrow> (nat \<times> jstring) list option" where
  "exec re s = search re s 0 (Suc (length s))"

text \<open>\<open>m[g]\<close> on a match: the capture of group \<open>g\<close>, \<open>undefined\<close> when it took no part.\<close>

definition group :: "(nat \<times> jstring) list \<Rightarrow> nat \<Rightarrow> jsval" where
  "group caps g = (case map_of caps g of None \<Rightarrow> Undefined | Some s \<Rightarrow> Str s)"

text \<open>
  \<open>v.match(re)\<close> and \<open>v.split(sep)\<close> exist on strings only; on any other value that
  \<open>JSON.parse\<close> yields the call is a TypeError.
\<close>

fun js_match :: "jsval \<Rightarrow> regexp \<Rightarrow> error + (nat \<times> jstring) list option" where
  "js_match (Str s) re = Inr (exec re s)"
| "js_match v re = Inl TypeError"

fun js_split :: "jsval \<Rightarrow> jstring \<Rightarrow> error + jstring list" where
  "js_split (Str s) sep = Inr (split s sep)"
| "js_split v sep = Inl TypeError"

text \<open>
  \<open>/^(-?-?lang(uage)? (.+))$/i\<close> and \<open>/^(-?-?help)$/i\<close>; the source calls the
  second one \<open>help\<close>.
\<close>

definition langRegex :: regexp where
  "langRegex =
     \<lparr>source = Cat [Bol,
        Group 1 (Cat [Opt (Char CHR ''-''), Opt (Char CHR ''-''),
                      Char CHR ''l'', Char CHR ''a'', Char CHR ''n'', Char CHR ''g'',
                      Opt (Group 2 (Cat [Char CHR ''u'', Char CHR ''a'', Char CHR ''g'',
                                         Char CHR ''e''])),
                      Char CHR '' '',
                      Group 3 (Plus Dot)]),
        Eol],
      ignoreCase = True\<rparr>"

definition helpRegex :: regexp where
  "helpRegex =
     \<lparr>source = Cat [Bol,
        Group 1 (Cat [Opt (Char CHR ''-''), Opt (Char CHR ''-''),
                      Char CHR ''h'', Char CHR ''e'', Char CHR ''l'', Char CHR ''p'']),
        Eol],
      ignoreCase = True\<rparr>"

section \<open>Event handlers\<close>

text \<open>
  The modules \<open>server.js\<close> requires for its outbound calls are parameters of the
  handlers: \<open>send(psid, text, type)\<close> (the third argument may be left out),
  \<open>userDB.getUser\<close>, \<open>userDB.addUser\<close>, \<open>changeLanguage\<close> and
  \<open>translator.translate\<close> return promises, which resolve to a value or reject with
  a reason; \<open>localeStrings(locale, key)\<close> is the localized text for a key.
\<close>

datatype outcome = Resolved jsval | Rejected jsval

record env =
  send :: "jsval \<Rightarrow> jsval \<Rightarrow> jstring option \<Rightarrow> outcome"
  getUser :: "jsval \<Rightarrow> outcome"
  addUser :: "jsval \<Rightarrow> outcome"
  changeLanguage :: "jsval \<Rightarrow> jsval \<Rightarrow> jsval \<Rightarrow> outcome"
  translate :: "jsval \<Rightarrow> jsval \<Rightarrow> jsval \<Rightarrow> outcome"
  localeStrings :: "jsval \<Rightarrow> jstring \<Rightarrow> jsval"

text \<open>
  \<open>await f(...)\<close>: the call is made, and the handler goes on with the value once the
  promise has resolved; a rejection is thrown at the \<open>await\<close>.
\<close>

definition await :: "effect \<Rightarrow> outcome \<Rightarrow> jsval act" where
  "await call out tr =
     (case out of
        Resolved v \<Rightarrow> (tr @ [call], Ok v)
      | Rejected r \<Rightarrow> (tr @ [call], Threw (Reason r)))"

definition await_send :: "env \<Rightarrow> jsval \<Rightarrow> jsval \<Rightarrow> jstring option \<Rightarrow> jsval act" where
  "await_send env psid text type = await (Send psid text type) (send env psid text type)"

text \<open>\<open>await userDB.getUser(senderID) || await userDB.addUser(senderID)\<close>\<close>

definition get_or_add_user :: "env \<Rightarrow> jsval \<Rightarrow> jsval act" where
  "get_or_add_user env senderID =
     seq (await (GetUser senderID) (getUser env senderID)) (\<lambda>found.
     if truthy found then ret found
     else await (AddUser senderID) (addUser env senderID))"

definition getHelp :: "env \<Rightarrow> jsval \<Rightarrow> jsval" where
  "getHelp env locale = localeStrings env locale (lit ''help'')"

definition receivedPostback :: "env \<Rightarrow> jsval \<Rightarrow> unit act" where
  "receivedPostback env event =
     seq (lift (get_prop event (lit ''sender''))) (\<lambda>sender.
     seq (lift (get_prop sender (lit ''id''))) (\<lambda>senderID.
     seq (lift (get_prop event (lit ''postback''))) (\<lambda>postback.
     seq (lift (get_prop postback (lit ''payload''))) (\<lambda>payload.
     seq (await_send env senderID Null (Some (lit ''mark_seen''))) (\<lambda>_.
     seq (await_send env senderID Null (Some (lit ''typing_on''))) (\<lambda>_.
     seq (get_or_add_user env senderID) (\<lambda>user.
     if payload = Str (lit ''get_started'') \<or> payload = Str (lit ''get_help'') then
       seq (lift (get_prop user (lit ''psid''))) (\<lambda>psid.
       seq (lift (get_prop user (lit ''locale''))) (\<lambda>locale.
       seq (await_send env psid (getHelp env locale) None) (\<lambda>_.
       ret ())))
     else if payload = Str (lit ''change_language'') then
       seq (lift (get_prop postback (lit ''title''))) (\<lambda>title.
       seq (lift (js_split title (lit ''--language ''))) (\<lambda>parts.
       let language = index parts 1 in
       seq (lift (get_prop user (lit ''locale''))) (\<lambda>locale.
       seq (await (ChangeLanguage user language locale)
              (changeLanguage env user language locale)) (\<lambda>response.
       seq (lift (get_prop user (lit ''psid''))) (\<lambda>psid.
       seq (await_send env psid response None) (\<lambda>_.
       ret ()))))))
     else
       seq (logger_write (Str (lit ''Unknown/unsupported payload''))) (\<lambda>_.
       seq (logger_write (Str (lit ''Event:''))) (\<lambda>_.
       logger_write event)))))))))"

definition receivedMessage :: "env \<Rightarrow> jsval \<Rightarrow> unit act" where
  "receivedMessage env event =
     seq (lift (get_prop event (lit ''sender''))) (\<lambda>sender.
     seq (lift (get_prop sender (lit ''id''))) (\<lambda>senderID.
     seq (lift (get_prop event (lit ''message''))) (\<lambda>message.
     seq (lift (get_prop message (lit ''text''))) (\<lambda>text.
     seq (await_send env senderID Null (Some (lit ''mark_seen''))) (\<lambda>_.
     seq (await_send env senderID Null (Some (lit ''typing_on''))) (\<lambda>_.
     seq (get_or_add_user env senderID) (\<lambda>user.
     seq (lift (get_prop message (lit ''attachments''))) (\<lambda>attachments.
     if truthy attachments then
       seq (lift (get_prop user (lit ''locale''))) (\<lambda>locale.
       let message = localeStrings env locale (lit ''attachments'') in
       seq (await_send env senderID message None) (\<lambda>_.
       ret ()))
     else
       seq (lift (js_match text helpRegex)) (\<lambda>m.
       seq (if m \<noteq> None then
              seq (lift (get_prop user (lit ''locale''))) (\<lambda>locale.
              ret (getHelp env locale))
            else
              seq (lift (js_match text langRegex)) (\<lambda>m.
              if m \<noteq> None then
                seq (lift (js_match text langRegex)) (\<lambda>m.
                seq (case m of None \<Rightarrow> throw TypeError
                             | Some caps \<Rightarrow> ret (group caps 3)) (\<lambda>language.
                seq (lift (get_prop user (lit ''locale''))) (\<lambda>locale.
                await (ChangeLanguage user language locale)
                  (changeLanguage env user language locale))))
              else
                seq (lift (get_prop user (lit ''language''))) (\<lambda>language.
                seq (lift (get_prop user (lit ''locale''))) (\<lambda>locale.
                await (Translate text language locale)
                  (translate env text language locale))))) (\<lambda>response.
       seq (lift (get_prop user (lit ''psid''))) (\<lambda>psid.
       seq (await_send env psid response None) (\<lambda>_.
       ret ()))))))))))))"

text \<open>
  Nobody awaits or catches the promise of a handler the route has called: when it
  rejects, the process-wide \<open>unhandledRejection\<close> listener writes the error to the log.
\<close>

definition unhandledRejection :: "error \<Rightarrow> unit act" where
  "unhandledRejection e =
     seq (logger_write (Str (lit ''Unhandled Promise rejection''))) (\<lambda>_.
     seq (logger_write (Str (lit ''Error:''))) (\<lambda>_.
     emit (LogError e)))"

definition detached :: "unit act \<Rightarrow> effect list" where
  "detached m =
     (case m [] of
        (tr, Ok _) \<Rightarrow> tr
      | (tr, Threw e) \<Rightarrow> fst (unhandledRejection e tr))"

fun run_task :: "env \<Rightarrow> task \<Rightarrow> effect list" where
  "run_task env (ReceivedMessage event) = detached (receivedMessage env event)"
| "run_task env (ReceivedPostback event) = detached (receivedPostback env event)"

section \<open>GET /webhook\<close>


section \<open>Notions used in the statements\<close>

text \<open>
  The handler the route calls for an event: the message handler for an event with a
  truthy \<open>message\<close>, else the postback handler for one with a truthy \<open>postback\<close>;
  \<open>None\<close> for an unknown event and for \<open>null\<close>.
\<close>

definition event_task :: "jsval \<Rightarrow> task option" where
  "event_task event =
     (case get_prop event (lit ''message'') of
        Inl e \<Rightarrow> None
      | Inr message \<Rightarrow>
          if truthy message then Some (ReceivedMessage event)
          else (case get_prop event (lit ''postback'') of
                  Inl e \<Rightarrow> None
                | Inr postback \<Rightarrow>
                    if truthy postback then Some (ReceivedPostback event) else None))"

text \<open>The events of an entry whose \<open>messaging\<close> is an array.\<close>

definition entry_events :: "jsval \<Rightarrow> jsval list option" where
  "entry_events entry =
     (case get_prop entry (lit ''messaging'') of
        Inr (Arr events) \<Rightarrow> Some events
      | _ \<Rightarrow> None)"

definition entry_tasks :: "jsval \<Rightarrow> task list" where
  "entry_tasks entry =
     (case entry_events entry of
        None \<Rightarrow> []
      | Some events \<Rightarrow> List.map_filter event_task events)"

text \<open>The two indicator calls every handler starts with.\<close>

definition indicators :: "jsval \<Rightarrow> effect list" where
  "indicators senderID =
     [Send senderID Null (Some (lit ''mark_seen'')),
      Send senderID Null (Some (lit ''typing_on''))]"

text \<open>A text sent to the user: a call of \<open>send\<close> without the third argument.\<close>

fun is_reply :: "effect \<Rightarrow> bool" where
  "is_reply (Send psid text type) = (type = None)"
| "is_reply eff = False"

text \<open>
  The commands of a text message as the specification words them: an optional
  leading \<open>-\<close> or \<open>--\<close>, then, compared without regard to case, either the word
  "help" and nothing more, or the word "language" or "lang", one space and a
  remainder. The remainder is what the pattern's \<open>.+\<close> takes: at least one code
  unit, none of them a line terminator.
\<close>

datatype command = Help | Language jstring | Plain

definition strip_dashes :: "jstring \<Rightarrow> jstring" where
  "strip_dashes s =
     (if take 2 s = lit ''--'' then drop 2 s
      else if take 1 s = lit ''-'' then drop 1 s
      else s)"

definition same_word :: "jstring \<Rightarrow> jstring \<Rightarrow> bool" where
  "same_word a b = (map (canonicalize True) a = map (canonicalize True) b)"

definition remainder :: "jstring \<Rightarrow> bool" where
  "remainder r = (r \<noteq> [] \<and> \<not> list_ex line_terminator r)"

definition spec_command :: "jstring \<Rightarrow> command" where
  "spec_command text =
     (let s = strip_dashes text
      in if same_word s (lit ''help'') then Help
         else if same_word (take 9 s) (lit ''language '') \<and> remainder (drop 9 s)
           then Language (drop 9 s)
         else if same_word (take 5 s) (lit ''lang '') \<and> remainder (drop 5 s)
           then Language (drop 5 s)
         else Plain)"

text \<open>Where a separator occurs in a string.\<close>

definition occurs_at :: "jstring \<Rightarrow> jstring \<Rightarrow> nat \<Rightarrow> bool" where
  "occurs_at sep s i = (take (length sep) (drop i s) = sep)"

section \<open>Sample inputs\<close>

definition sample_user :: jsval where
  "sample_user =
     Obj [(lit ''psid'', Str (lit ''1001'')), (lit ''locale'', Str (lit ''en'')),
          (lit ''language'', Str (lit ''fr''))]"

text \<open>
  A configuration whose digest function knows two algorithm names, and whose parser
  yields a fixed delivery.
\<close>

definition sample_config :: "jsval \<Rightarrow> config" where
  "sample_config data =
     \<lparr>VALIDATION_TOKEN = lit ''token'', APP_SECRET = lit ''secret'',
      hmac = (\<lambda>method key b.
                if method = lit ''sha1'' then Some (lit ''1f'')
                else if method = lit ''md5'' then Some (lit ''2e'')
                else None),
      json_parse = (\<lambda>b. Some data)\<rparr>"

definition sample_request :: "string \<Rightarrow> request" where
  "sample_request signature =
     \<lparr>x_hub_signature = Some (lit signature), has_json_body = True, buf = [],
      body = Undefined\<rparr>"

text \<open>A request without a signature and without a body.\<close>

definition bare_request :: request where
  "bare_request =
     \<lparr>x_hub_signature = None, has_json_body = False, buf = [], body = Undefined\<rparr>"

text \<open>An environment in which every call resolves.\<close>

definition sample_env :: env where
  "sample_env =
     \<lparr>send = (\<lambda>psid text type. Resolved Undefined),
      getUser = (\<lambda>senderID. Resolved sample_user),
      addUser = (\<lambda>senderID. Resolved sample_user),
      changeLanguage = (\<lambda>user language locale. Resolved (Str (lit ''changed''))),
      translate = (\<lambda>text language locale. Resolved (Str (lit ''bonjour''))),
      localeStrings = (\<lambda>locale key. Str key)\<rparr>"

text \<open>An environment in which \<open>send\<close> rejects.\<close>

definition failing_env :: env where
  "failing_env = sample_env\<lparr>send := (\<lambda>psid text type. Rejected (Str (lit ''ECONNRESET'')))\<rparr>"

definition sender :: jsval where
  "sender = Obj [(lit ''id'', Str (lit ''1001''))]"

definition message_event :: "string \<Rightarrow> jsval" where
  "message_event text =
     Obj [(lit ''sender'', sender), (lit ''message'', Obj [(lit ''text'', Str (lit text))])]"

definition attachment_event :: jsval where
  "attachment_event =
     Obj [(lit ''sender'', sender),
          (lit ''message'', Obj [(lit ''text'', Str (lit ''help'')),
                                 (lit ''attachments'', Arr [Obj []])])]"

definition numeric_message_event :: jsval where
  "numeric_message_event =
     Obj [(lit ''sender'', sender), (lit ''message'', Obj [(lit ''text'', Num 42)])]"

definition empty_message_event :: jsval where
  "empty_message_event = Obj [(lit ''sender'', sender), (lit ''message'', Obj [])]"

definition postback_event :: "string \<Rightarrow> string \<Rightarrow> jsval" where
  "postback_event payload title =
     Obj [(lit ''sender'', sender),
          (lit ''postback'', Obj [(lit ''payload'', Str (lit payload)),
                                  (lit ''title'', Str (lit title))])]"

definition unknown_event :: jsval where
  "unknown_event = Obj [(lit ''sender'', sender), (lit ''read'', Obj [])]"

definition delivery :: "jsval list \<Rightarrow> jsval" where
  "delivery events =
     Obj [(lit ''object'', Str (lit ''page'')),
          (lit ''entry'', Arr [Obj [(lit ''messaging'', Arr events)]])]"

section \<open>Basic facts\<close>

lemmas act_defs = ret_def throw_def seq_def emit_def lift_def logger_write_def res_send_def

lemmas sample_defs = sample_config_def sample_request_def bare_request_def sample_env_def
  failing_env_def sample_user_def sender_def message_event_def attachment_event_def
  numeric_message_event_def empty_message_event_def postback_event_def unknown_event_def
  delivery_def

subsection \<open>Splitting strings\<close>

lemma split_from_nonempty: "split_from sep s acc \<noteq> []"
  by (induction sep s acc rule: split_from.induct) auto

lemma split_nonempty: "s \<noteq> [] \<Longrightarrow> split s sep \<noteq> []"
  by (simp add: split_def split_from_nonempty)

lemma index_split_0: "s \<noteq> [] \<Longrightarrow> index (split s sep) 0 = Str (hd (split s sep))"
  using split_nonempty [of s sep] by (cases "split s sep") (simp_all add: index_def)

lemma split_from_unbroken:
  "sep \<noteq> [] \<Longrightarrow> \<forall>i<length s. \<not> occurs_at sep s i \<Longrightarrow> split_from sep s acc = [rev acc @ s]"
proof (induction s arbitrary: acc)
  case Nil
  then show ?case by simp
next
  case (Cons x xs)
  from Cons.prems(2) have "\<not> occurs_at sep (x # xs) 0" by auto
  then have h: "take (length sep) (x # xs) \<noteq> sep" by (simp add: occurs_at_def)
  have "\<forall>i<length xs. \<not> occurs_at sep xs i"
  proof (intro allI impI)
    fix i assume "i < length xs"
    then have "\<not> occurs_at sep (x # xs) (Suc i)" using Cons.prems(2) by auto
    then show "\<not> occurs_at sep xs i" by (simp add: occurs_at_def)
  qed
  with Cons.IH [OF Cons.prems(1)] have "split_from sep xs (x # acc) = [rev (x # acc) @ xs]" by blast
  with h show ?case by simp
qed

lemma split_from_first:
  "sep \<noteq> [] \<Longrightarrow> \<forall>i<length pre. \<not> occurs_at sep (pre @ sep @ rest) i \<Longrightarrow>
   split_from sep (pre @ sep @ rest) acc = (rev acc @ pre) # split_from sep rest []"
proof (induction pre arbitrary: acc)
  case Nil
  then show ?case by (cases sep) simp_all
next
  case (Cons x xs)
  from Cons.prems(2) have "\<not> occurs_at sep ((x # xs) @ sep @ rest) 0" by auto
  then have h: "take (length sep) (x # xs @ sep @ rest) \<noteq> sep" by (simp add: occurs_at_def)
  have "\<forall>i<length xs. \<not> occurs_at sep (xs @ sep @ rest) i"
  proof (intro allI impI)
    fix i assume "i < length xs"
    then have "\<not> occurs_at sep ((x # xs) @ sep @ rest) (Suc i)" using Cons.prems(2) by auto
    then show "\<not> occurs_at sep (xs @ sep @ rest) i" by (simp add: occurs_at_def)
  qed
  with Cons.IH [OF Cons.prems(1)]
  have "split_from sep (xs @ sep @ rest) (x # acc) = (rev (x # acc) @ xs) # split_from sep rest []"
    by blast
  with h show ?case by simp
qed

lemma split_two:
  assumes "sep \<noteq> []" "\<forall>i<length a. \<not> occurs_at sep (a @ sep @ b) i" "\<forall>i<length b. \<not> occurs_at sep b i"
  shows "split (a @ sep @ b) sep = [a, b]"
  using assms by (simp add: split_def split_from_first split_from_unbroken)





subsection \<open>The loops of the POST route\<close>

lemma on_event_known:
  "event_task event = Some t \<Longrightarrow> on_event event tr = (tr @ [Spawn t], Ok Undefined)"
  by (auto simp: event_task_def on_event_def act_defs split: sum.splits if_splits)

lemma forEach_known:
  "\<forall>event\<in>set events. event_task event \<noteq> None \<Longrightarrow>
   forEach on_event events tr = (tr @ map Spawn (List.map_filter event_task events), Ok ())"
proof (induction events arbitrary: tr)
  case Nil
  then show ?case by (simp add: map_filter_simps)
next
  case (Cons event events)
  then obtain t where t: "event_task event = Some t" by auto
  from Cons have "forEach on_event events (tr @ [Spawn t]) =
      ((tr @ [Spawn t]) @ map Spawn (List.map_filter event_task events), Ok ())" by simp
  with t show ?case by (simp add: on_event_known map_filter_simps)
qed

lemma entry_known:
  assumes "entry_events entry = Some events" "\<forall>event\<in>set events. event_task event \<noteq> None"
  shows "seq (lift (get_prop entry (lit ''messaging''))) (\<lambda>messaging. js_forEach messaging on_event) tr =
         (tr @ map Spawn (entry_tasks entry), Ok ())"
  using assms forEach_known [OF assms(2), of tr]
  by (auto simp: entry_events_def entry_tasks_def seq_def lift_def split: sum.splits jsval.splits)

lemma entries_known:
  "\<forall>entry\<in>set entries. \<exists>events. entry_events entry = Some events \<and> (\<forall>event\<in>set events. event_task event \<noteq> None) \<Longrightarrow>
   forEach (\<lambda>entry. seq (lift (get_prop entry (lit ''messaging''))) (\<lambda>messaging. js_forEach messaging on_event)) entries tr =
     (tr @ map Spawn (concat (map entry_tasks entries)), Ok ())"
proof (induction entries arbitrary: tr)
  case Nil
  then show ?case by simp
next
  case (Cons entry entries)
  then obtain events where e: "entry_events entry = Some events" "\<forall>event\<in>set events. event_task event \<noteq> None"
    by auto
  from Cons have "forEach (\<lambda>entry. seq (lift (get_prop entry (lit ''messaging''))) (\<lambda>messaging. js_forEach messaging on_event)) entries
      (tr @ map Spawn (entry_tasks entry)) = ((tr @ map Spawn (entry_tasks entry)) @ map Spawn (concat (map entry_tasks entries)), Ok ())"
    by simp
  then show ?case by (simp add: entry_known [OF e])
qed

lemma spawn_no_response: "\<not> list_ex is_response (map Spawn ts)"
  by (induction ts) simp_all

lemma filter_response_spawn: "filter is_response (map Spawn ts) = []"
  by (induction ts) simp_all

lemma webhook_post_known:
  "(get_prop data (lit ''object'') = Inr object \<and> object \<noteq> Str (lit ''page'') \<longrightarrow>
      webhook_post data [] =
        ([Log (Str (lit ''Object is not a page'')), Log (Str (lit ''Data:'')), Log data,
          Respond 403 (Str (lit ''An error has occurred''))], Ok (Bool False))) \<and>
   (get_prop data (lit ''object'') = Inr (Str (lit ''page'')) \<and>
    get_prop data (lit ''entry'') = Inr (Arr entries) \<and>
    (\<forall>entry\<in>set entries. \<exists>events. entry_events entry = Some events \<and>
        (\<forall>event\<in>set events. event_task event \<noteq> None)) \<longrightarrow>
      webhook_post data [] =
        (map Spawn (concat (map entry_tasks entries)) @ [Respond 200 (Str (lit ''Success''))],
         Ok (Bool True)))"
proof (intro conjI impI)
  assume "get_prop data (lit ''object'') = Inr object \<and> object \<noteq> Str (lit ''page'')"
  then show "webhook_post data [] =
        ([Log (Str (lit ''Object is not a page'')), Log (Str (lit ''Data:'')), Log data,
          Respond 403 (Str (lit ''An error has occurred''))], Ok (Bool False))"
    by (simp add: webhook_post_def act_defs)
next
  assume a: "get_prop data (lit ''object'') = Inr (Str (lit ''page'')) \<and>
    get_prop data (lit ''entry'') = Inr (Arr entries) \<and>
    (\<forall>entry\<in>set entries. \<exists>events. entry_events entry = Some events \<and>
        (\<forall>event\<in>set events. event_task event \<noteq> None))"
  then have loop: "forEach (\<lambda>entry. seq (lift (get_prop entry (lit ''messaging''))) (\<lambda>messaging. js_forEach messaging on_event)) entries [] =
     ([] @ map Spawn (concat (map entry_tasks entries)), Ok ())"
    using entries_known [of entries "[]"] by blast
  from a show "webhook_post data [] =
        (map Spawn (concat (map entry_tasks entries)) @ [Respond 200 (Str (lit ''Success''))],
         Ok (Bool True))"
    using loop by (simp add: webhook_post_def seq_def lift_def ret_def res_send_def spawn_no_response)
qed

subsection \<open>The event handlers\<close>

lemma get_or_add_user_app:
  "get_or_add_user env senderID tr =
     (tr @ fst (get_or_add_user env senderID []), snd (get_or_add_user env senderID []))"
  by (simp add: get_or_add_user_def await_def seq_def ret_def split: outcome.splits)

lemma get_or_add_user_at:
  "get_or_add_user env senderID [] = (lookups, Ok user) \<Longrightarrow>
   get_or_add_user env senderID tr = (tr @ lookups, Ok user)"
  using get_or_add_user_app [of env senderID tr] by simp

lemma get_or_add_user_no_reply:
  "\<not> list_ex is_reply (fst (get_or_add_user env senderID []))"
  by (simp add: get_or_add_user_def await_def seq_def ret_def split: outcome.splits)

lemmas handler_defs = seq_def lift_def ret_def throw_def emit_def logger_write_def
  await_def await_send_def indicators_def getHelp_def

lemma prefix_lift: "prefix tr (fst (lift r tr))"
  by (simp add: lift_def split: sum.splits)

lemma prefix_ret: "prefix tr (fst (ret a tr))"
  by (simp add: ret_def)

lemma prefix_throw: "prefix tr (fst (throw e tr))"
  by (simp add: throw_def)

lemma prefix_logger_write: "prefix tr (fst (logger_write v tr))"
  by (simp add: logger_write_def emit_def)

lemma prefix_await: "prefix tr (fst (await call out tr))"
  by (simp add: await_def split: outcome.splits)

lemma prefix_await_send: "prefix tr (fst (await_send env psid text type tr))"
  by (simp add: await_send_def prefix_await)

lemma prefix_seq:
  assumes "\<And>tr. prefix tr (fst (m tr))" and "\<And>a tr. prefix tr (fst (f a tr))"
  shows "prefix tr (fst (seq m f tr))"
proof (cases "m tr")
  case (Pair tr' r)
  with assms(1) [of tr] have p: "prefix tr tr'" by simp
  show ?thesis
  proof (cases r)
    case (Ok a)
    with Pair have "seq m f tr = f a tr'" by (simp add: seq_def)
    with assms(2) [of tr' a] p show ?thesis by (metis prefix_order.trans)
  next
    case (Threw e)
    with Pair p show ?thesis by (simp add: seq_def)
  qed
qed

lemma prefix_if:
  assumes "c \<Longrightarrow> prefix tr (fst (m tr))" and "\<not> c \<Longrightarrow> prefix tr (fst (m' tr))"
  shows "prefix tr (fst ((if c then m else m') tr))"
  using assms by simp

lemma prefix_case_option:
  assumes "prefix tr (fst (m tr))" and "\<And>x. prefix tr (fst (f x tr))"
  shows "prefix tr (fst ((case opt of None \<Rightarrow> m | Some x \<Rightarrow> f x) tr))"
  using assms by (cases opt) simp_all

lemmas prefix_rules = prefix_seq prefix_if prefix_case_option prefix_lift prefix_ret
  prefix_throw prefix_logger_write prefix_await prefix_await_send

lemma seq_lift_Inr: "seq (lift (Inr a)) f tr = f a tr"
  by (simp add: seq_def lift_def)

lemma seq_await_send_Resolved:
  "send env psid text type = Resolved v \<Longrightarrow>
   seq (await_send env psid text type) f tr = f v (tr @ [Send psid text type])"
  by (simp add: seq_def await_send_def await_def)

lemma seq_await_send_Rejected:
  "send env psid text type = Rejected reason \<Longrightarrow>
   seq (await_send env psid text type) f tr = (tr @ [Send psid text type], Threw (Reason reason))"
  by (simp add: seq_def await_send_def await_def)

lemma prefix_seq_lookup:
  assumes "\<And>user tr. prefix tr (fst (f user tr))"
  shows "prefix [a, b, GetUser senderID] (fst (seq (get_or_add_user env senderID) f [a, b]))"
proof -
  obtain tr' r where e: "get_or_add_user env senderID [a, b] = (tr', r)" by force
  then have p: "prefix [a, b, GetUser senderID] tr'"
    by (auto simp: get_or_add_user_def await_def seq_def ret_def split: outcome.splits if_splits)
  show ?thesis
  proof (cases r)
    case (Ok user)
    with e have "seq (get_or_add_user env senderID) f [a, b] = f user tr'" by (simp add: seq_def)
    with assms [of tr' user] p show ?thesis by (metis prefix_order.trans)
  next
    case (Threw err)
    with e p show ?thesis by (simp add: seq_def)
  qed
qed

lemma receivedMessage_after_indicators:
  assumes "get_prop event (lit ''sender'') = Inr sender0"
      and "get_prop sender0 (lit ''id'') = Inr senderID"
      and "get_prop event (lit ''message'') = Inr message"
      and "get_prop message (lit ''text'') = Inr text"
      and "send env senderID Null (Some (lit ''mark_seen'')) = Resolved v"
      and "send env senderID Null (Some (lit ''typing_on'')) = Resolved w"
  shows "prefix (indicators senderID @ [GetUser senderID]) (fst (receivedMessage env event []))"
  using assms
  apply (simp add: receivedMessage_def seq_lift_Inr seq_await_send_Resolved indicators_def
      del: prefix_code)
  apply (rule prefix_seq_lookup)
  apply (unfold Let_def)
  apply (intro prefix_rules)
  done

lemma receivedPostback_after_indicators:
  assumes "get_prop event (lit ''sender'') = Inr sender0"
      and "get_prop sender0 (lit ''id'') = Inr senderID"
      and "get_prop event (lit ''postback'') = Inr postback"
      and "get_prop postback (lit ''payload'') = Inr payload"
      and "send env senderID Null (Some (lit ''mark_seen'')) = Resolved v"
      and "send env senderID Null (Some (lit ''typing_on'')) = Resolved w"
  shows "prefix (indicators senderID @ [GetUser senderID]) (fst (receivedPostback env event []))"
  using assms
  apply (simp add: receivedPostback_def seq_lift_Inr seq_await_send_Resolved indicators_def
      del: prefix_code)
  apply (rule prefix_seq_lookup)
  apply (unfold Let_def)
  apply (intro prefix_rules)
  done

subsection \<open>The two patterns\<close>

lemma search_anchored:
  "source re = Cat (Bol # rs) \<Longrightarrow> search re s (Suc start) k = None"
  by (induction k arbitrary: start) simp_all

lemma exec_anchored:
  "source re = Cat (Bol # rs) \<Longrightarrow>
   exec re s =
     (case matches (ignoreCase re) (Cat rs) (0, s, []) of
        [] \<Rightarrow> None
      | (n, rest, caps) # _ \<Rightarrow> Some caps)"
  by (simp add: exec_def search_anchored split: list.splits)

lemma matches_Eol_last:
  "concat (map (matches i (Cat [Eol])) sts) = filter (\<lambda>st. fst (snd st) = []) sts"
  by (induction sts) auto

lemma filter_matches_Cat:
  "filter P (matches i (Cat (r # rs)) st) =
     concat (map (\<lambda>st'. filter P (matches i (Cat rs) st')) (matches i r st))"
  by (simp add: filter_concat comp_def)

lemma filter_matches_Char:
  "filter P (matches i (Cat (Char c # rs)) (n, s, caps)) =
     (case s of
        [] \<Rightarrow> []
      | x # xs \<Rightarrow>
          if canonicalize i x = canonicalize i (of_char c)
          then filter P (matches i (Cat rs) (Suc n, xs, caps)) else [])"
  by (simp split: list.splits)

lemma filter_matches_Opt:
  "filter P (matches i (Cat (Opt r # rs)) st) =
     filter P (matches i (Cat (r # rs)) st) @ filter P (matches i (Cat rs) st)"
  by simp

lemma filter_matches_Group:
  "filter (\<lambda>st. fst (snd st) = []) (matches i (Group g r) (n, s, caps)) =
     map (\<lambda>(n', s', caps'). (n', s', (g, take (n' - n) s) # caps'))
       (filter (\<lambda>st. fst (snd st) = []) (matches i r (n, s, caps)))"
  by (simp add: filter_map comp_def case_prod_unfold)

lemma filter_repeat_Dot:
  "length s \<le> fuel \<Longrightarrow>
   filter (\<lambda>st. fst (snd st) = []) (repeat (\<lambda>st. matches i Dot st) fuel (n, s, caps)) =
     (if list_ex line_terminator s then [] else [(n + length s, [], caps)])"
proof (induction fuel arbitrary: n s)
  case 0
  then show ?case by simp
next
  case (Suc fuel)
  show ?case
  proof (cases s)
    case Nil
    then show ?thesis by simp
  next
    case (Cons x xs)
    with Suc.prems have "length xs \<le> fuel" by simp
    from Suc.IH [OF this, of "Suc n"] Cons show ?thesis by simp
  qed
qed

lemma filter_matches_Plus_Dot:
  "filter (\<lambda>st. fst (snd st) = []) (matches i (Plus Dot) (n, s, caps)) =
     (if remainder s then [(n + length s, [], caps)] else [])"
proof (cases s)
  case Nil
  then show ?thesis by (simp add: remainder_def)
next
  case (Cons x xs)
  have "length xs \<le> length s" using Cons by simp
  from filter_repeat_Dot [OF this, of i "Suc n" caps] Cons show ?thesis
    by (simp add: remainder_def)
qed

lemma canonicalize_dash: "canonicalize i x = 0x2D \<longleftrightarrow> x = 0x2D"
proof
  assume a: "canonicalize i x = 0x2D"
  show "x = 0x2D"
  proof (cases "i \<and> 0x61 \<le> x \<and> x \<le> 0x7A")
    case True
    with a have "x - 0x20 = 0x2D" by (simp add: canonicalize_def)
    then have "x = 0x2D + 0x20" by (simp add: algebra_simps)
    then have "x = 0x4D" by simp
    with True show ?thesis by simp
  next
    case False
    with a show ?thesis by (simp add: canonicalize_def)
  qed
next
  assume "x = 0x2D"
  then show "canonicalize i x = 0x2D" by (simp add: canonicalize_def)
qed

lemma canon_lits:
  "canonicalize True (of_char CHR ''-'') = 0x2D"
  "canonicalize True (of_char CHR '' '') = 0x20"
  "canonicalize True (of_char CHR ''h'') = 0x48"
  "canonicalize True (of_char CHR ''e'') = 0x45"
  "canonicalize True (of_char CHR ''l'') = 0x4C"
  "canonicalize True (of_char CHR ''p'') = 0x50"
  "canonicalize True (of_char CHR ''a'') = 0x41"
  "canonicalize True (of_char CHR ''n'') = 0x4E"
  "canonicalize True (of_char CHR ''g'') = 0x47"
  "canonicalize True (of_char CHR ''u'') = 0x55"
  by (simp_all add: canonicalize_def)

lemma anchored_group:
  "matches i (Cat [Group g r, Eol]) (0, s, []) =
     map (\<lambda>(n', s', caps'). (n', s', (g, take n' s) # caps'))
       (filter (\<lambda>st. fst (snd st) = []) (matches i r (0, s, [])))"
proof -
  have "matches i (Cat [Group g r, Eol]) (0, s, []) =
          concat (map (matches i (Cat [Eol])) (matches i (Group g r) (0, s, [])))"
    by (simp only: matches.simps)
  also have "\<dots> = filter (\<lambda>st. fst (snd st) = []) (matches i (Group g r) (0, s, []))"
    by (rule matches_Eol_last)
  also have "\<dots> = map (\<lambda>(n', s', caps'). (n', s', (g, take n' s) # caps'))
       (filter (\<lambda>st. fst (snd st) = []) (matches i r (0, s, [])))"
    by (simp only: filter_matches_Group diff_zero)
  finally show ?thesis .
qed

lemma filter_matches_Nil:
  "filter (\<lambda>st. fst (snd st) = []) (matches i (Cat []) (n, s, caps)) =
     (if s = [] then [(n, s, caps)] else [])"
  by simp

lemma matches_single: "matches i (Cat [r]) st = matches i r st"
proof -
  have "concat (map (matches i (Cat [])) sts) = sts" for sts
    by (induction sts) simp_all
  then show ?thesis by simp
qed

lemma filter_matches_last_group:
  "filter (\<lambda>st. fst (snd st) = []) (matches i (Cat [Group g (Plus Dot)]) (n, s, caps)) =
     (if remainder s then [(n + length s, [], (g, s) # caps)] else [])"
  by (simp only: matches_single filter_matches_Group filter_matches_Plus_Dot) simp

lemma canonicalize_dash_sym: "0x2D = canonicalize i x \<longleftrightarrow> x = 0x2D"
  using canonicalize_dash [of i x] by auto

lemma optional_dashes:
  assumes "canonicalize i (of_char c) \<noteq> 0x2D"
  shows "filter P (matches i (Cat (Opt (Char CHR ''-'') # Opt (Char CHR ''-'') # Char c # rs)) (0, s, caps)) =
           (let R = filter P (matches i (Cat (Char c # rs))
                      (length s - length (strip_dashes s), strip_dashes s, caps))
            in if take 1 s = lit ''-'' \<and> take 2 s \<noteq> lit ''--'' then R @ R else R)"
proof -
  have d: "canonicalize i (of_char CHR ''-'') = 0x2D" by (simp add: canonicalize_def)
  have e: "canonicalize i 0x2D = 0x2D" by (simp add: canonicalize_def)
  from assms have c: "of_char c \<noteq> (0x2D :: 16 word)" using e by auto
  show ?thesis
    using c
    by (simp only: filter_matches_Opt filter_matches_Char d canonicalize_dash)
       (auto simp: strip_dashes_def lit_def Let_def e canonicalize_dash canonicalize_dash_sym
             eval_nat_numeral split: list.splits)
qed

lemma matches_Cat_Char:
  "matches i (Cat (Char c # rs)) (n, s, caps) =
     (case s of
        [] \<Rightarrow> []
      | x # xs \<Rightarrow>
          if canonicalize i x = canonicalize i (of_char c)
          then matches i (Cat rs) (Suc n, xs, caps) else [])"
  by (simp split: list.splits)

lemma canon_codes:
  "canonicalize True 0x68 = 0x48" "canonicalize True 0x65 = 0x45"
  "canonicalize True 0x6C = 0x4C" "canonicalize True 0x70 = 0x50"
  "canonicalize True 0x61 = 0x41" "canonicalize True 0x6E = 0x4E"
  "canonicalize True 0x67 = 0x47" "canonicalize True 0x75 = 0x55"
  "canonicalize True 0x20 = 0x20" "canonicalize True 0x2D = 0x2D"
  by (simp_all add: canonicalize_def)

lemma help_word:
  "filter (\<lambda>st. fst (snd st) = [])
     (matches True (Cat [Char CHR ''h'', Char CHR ''e'', Char CHR ''l'', Char CHR ''p'']) (k, s, caps)) \<noteq> []
   \<longleftrightarrow> same_word s (lit ''help'')"
  by (simp only: filter_matches_Char filter_matches_Nil canon_lits)
     (auto simp: same_word_def lit_def canon_codes split: list.splits)

lemma exec_anchored_group:
  assumes "source re = Cat [Bol, Group g r, Eol]"
  shows "exec re s =
           (case filter (\<lambda>st. fst (snd st) = []) (matches (ignoreCase re) r (0, s, [])) of
              [] \<Rightarrow> None
            | (n, rest, caps) # _ \<Rightarrow> Some ((g, take n s) # caps))"
proof -
  have "exec re s =
          (case matches (ignoreCase re) (Cat [Group g r, Eol]) (0, s, []) of
             [] \<Rightarrow> None | (n, rest, caps) # _ \<Rightarrow> Some caps)"
    using exec_anchored [OF assms] .
  then show ?thesis
    by (cases "filter (\<lambda>st. fst (snd st) = []) (matches (ignoreCase re) r (0, s, []))")
       (auto simp only: anchored_group list.map list.case prod.case split: prod.splits)
qed

lemma exec_helpRegex:
  "exec helpRegex text \<noteq> None \<longleftrightarrow> same_word (strip_dashes text) (lit ''help'')"
proof -
  let ?P = "\<lambda>st :: mstate. fst (snd st) = []"
  let ?w = "Cat [Char CHR ''h'', Char CHR ''e'', Char CHR ''l'', Char CHR ''p'']"
  let ?R = "filter ?P (matches True ?w (length text - length (strip_dashes text), strip_dashes text, []))"
  have h: "canonicalize True (of_char CHR ''h'') \<noteq> (0x2D :: 16 word)" by (simp add: canonicalize_def)
  have "source helpRegex = Cat [Bol, Group 1 (Cat [Opt (Char CHR ''-''), Opt (Char CHR ''-''),
                      Char CHR ''h'', Char CHR ''e'', Char CHR ''l'', Char CHR ''p'']), Eol]"
       "ignoreCase helpRegex = True"
    by (simp_all add: helpRegex_def)
  from exec_anchored_group [OF this(1), of "text"] this(2)
  have "exec helpRegex text \<noteq> None \<longleftrightarrow>
      filter ?P (matches True (Cat [Opt (Char CHR ''-''), Opt (Char CHR ''-''),
                      Char CHR ''h'', Char CHR ''e'', Char CHR ''l'', Char CHR ''p'']) (0, text, [])) \<noteq> []"
    by (simp del: matches.simps split: list.splits)
  also have "\<dots> \<longleftrightarrow> ?R \<noteq> []"
    by (simp only: optional_dashes [OF h] Let_def) (simp del: matches.simps)
  also have "\<dots> \<longleftrightarrow> same_word (strip_dashes text) (lit ''help'')"
    by (rule help_word)
  finally show ?thesis .
qed

lemma matches_word:
  "matches True (Cat (map Char w @ rs)) (n, s, caps) =
     (if same_word (take (length w) s) (lit w)
      then matches True (Cat rs) (n + length w, drop (length w) s, caps) else [])"
proof (induction w arbitrary: n s)
  case Nil
  then show ?case by (simp add: same_word_def lit_def)
next
  case (Cons c w)
  show ?case
  proof (cases s)
    case Nil
    then show ?thesis by (simp add: same_word_def lit_def)
  next
    case s: (Cons x xs)
    have "matches True (Cat (map Char (c # w) @ rs)) (n, s, caps) =
            (if canonicalize True x = canonicalize True (of_char c)
             then matches True (Cat (map Char w @ rs)) (Suc n, xs, caps) else [])"
      using s by (simp only: list.map append_Cons matches_Cat_Char list.case)
    also have "\<dots> =
            (if canonicalize True x = canonicalize True (of_char c) \<and>
                same_word (take (length w) xs) (lit w)
             then matches True (Cat rs) (Suc n + length w, drop (length w) xs, caps) else [])"
      by (simp only: Cons.IH) simp
    finally show ?thesis using s by (simp add: same_word_def lit_def)
  qed
qed

lemma same_word_length: "same_word a b \<Longrightarrow> length a = length b"
  by (auto simp: same_word_def dest: arg_cong [where f = length])

lemma same_word_take_append:
  "same_word (take (length a + length b) s) (a @ b) \<longleftrightarrow>
   same_word (take (length a) s) a \<and> same_word (take (length b) (drop (length a) s)) b"
proof
  assume l: "same_word (take (length a + length b) s) (a @ b)"
  from same_word_length [OF l] have "length a + length b \<le> length s" by simp
  then have "length (take (length a) s) = length a" by simp
  with l show "same_word (take (length a) s) a \<and> same_word (take (length b) (drop (length a) s)) b"
    by (simp add: same_word_def take_add)
next
  assume "same_word (take (length a) s) a \<and> same_word (take (length b) (drop (length a) s)) b"
  then show "same_word (take (length a + length b) s) (a @ b)"
    by (simp add: same_word_def take_add)
qed

lemma same_word_take_split:
  assumes "length a = m" and "length b = n"
  shows "same_word (take (m + n) s) (a @ b) \<longleftrightarrow>
         same_word (take m s) a \<and> same_word (take n (drop m s)) b"
  using same_word_take_append [of a b s] assms by simp

lemma uage_group:
  "matches True (Group 2 (Cat [Char CHR ''u'', Char CHR ''a'', Char CHR ''g'', Char CHR ''e''])) (n, s, caps) =
     (if same_word (take 4 s) (lit ''uage'')
      then [(n + 4, drop 4 s, (2, take 4 s) # caps)] else [])"
proof -
  have l: "length ''uage'' = 4" by simp
  have "matches True (Cat [Char CHR ''u'', Char CHR ''a'', Char CHR ''g'', Char CHR ''e'']) (n, s, caps) =
          (if same_word (take 4 s) (lit ''uage'') then [(n + 4, drop 4 s, caps)] else [])"
    using matches_word [of "''uage''" "[]" n s caps] unfolding l
    by (simp del: matches.simps(6))
  then show ?thesis by (simp only: matches.simps(9)) simp
qed

lemma lang_tail:
  "filter (\<lambda>st. fst (snd st) = [])
     (matches True (Cat [Char CHR '' '', Group 3 (Plus Dot)]) (n, s, caps)) =
     (if same_word (take 1 s) (lit '' '') \<and> remainder (drop 1 s)
      then [(n + length s, [], (3, drop 1 s) # caps)] else [])"
proof -
  have l: "length '' '' = 1" by simp
  have "matches True (Cat [Char CHR '' '', Group 3 (Plus Dot)]) (n, s, caps) =
          (if same_word (take 1 s) (lit '' '')
           then matches True (Cat [Group 3 (Plus Dot)]) (n + 1, drop 1 s, caps) else [])"
    using matches_word [of "'' ''" "[Group 3 (Plus Dot)]" n s caps] unfolding l
    by (simp del: matches.simps)
  then have "filter (\<lambda>st. fst (snd st) = [])
     (matches True (Cat [Char CHR '' '', Group 3 (Plus Dot)]) (n, s, caps)) =
     (if same_word (take 1 s) (lit '' '')
      then filter (\<lambda>st. fst (snd st) = []) (matches True (Cat [Group 3 (Plus Dot)]) (n + 1, drop 1 s, caps))
      else [])"
    by (simp del: matches.simps)
  also have "\<dots> = (if same_word (take 1 s) (lit '' '') \<and> remainder (drop 1 s)
      then [(n + length s, [], (3, drop 1 s) # caps)] else [])"
  proof (cases "same_word (take 1 s) (lit '' '')")
    case True
    from same_word_length [OF True] have "1 \<le> length s" by (simp add: lit_def)
    then have "n + 1 + length (drop 1 s) = n + length s" by simp
    with True show ?thesis by (simp only: filter_matches_last_group) simp
  next
    case False
    then show ?thesis by simp
  qed
  finally show ?thesis .
qed

lemma lang_tail_state:
  "filter (\<lambda>st. fst (snd st) = [])
     (matches True (Cat [Char CHR '' '', Group 3 (Plus Dot)]) st) =
     (case st of (n, s, caps) \<Rightarrow>
        if same_word (take 1 s) (lit '' '') \<and> remainder (drop 1 s)
        then [(n + length s, [], (3, drop 1 s) # caps)] else [])"
  by (cases st) (simp only: lang_tail prod.case)

lemma lang_word:
  "filter (\<lambda>st. fst (snd st) = [])
     (matches True
        (Cat [Char CHR ''l'', Char CHR ''a'', Char CHR ''n'', Char CHR ''g'',
              Opt (Group 2 (Cat [Char CHR ''u'', Char CHR ''a'', Char CHR ''g'', Char CHR ''e''])),
              Char CHR '' '', Group 3 (Plus Dot)]) (k, s, caps)) =
     (if same_word (take 9 s) (lit ''language '') \<and> remainder (drop 9 s)
        then [(k + length s, [], (3, drop 9 s) # (2, take 4 (drop 4 s)) # caps)]
      else if same_word (take 5 s) (lit ''lang '') \<and> remainder (drop 5 s)
        then [(k + length s, [], (3, drop 5 s) # caps)]
      else [])"
proof -
  let ?P = "\<lambda>st :: mstate. fst (snd st) = []"
  let ?G2 = "Group 2 (Cat [Char CHR ''u'', Char CHR ''a'', Char CHR ''g'', Char CHR ''e''])"
  let ?tail = "[Char CHR '' '', Group 3 (Plus Dot)]"
  let ?t = "drop 4 s"
  have l: "length ''lang'' = 4" by simp
  have 1: "matches True (Cat [Char CHR ''l'', Char CHR ''a'', Char CHR ''n'', Char CHR ''g'',
              Opt ?G2, Char CHR '' '', Group 3 (Plus Dot)]) (k, s, caps) =
        (if same_word (take 4 s) (lit ''lang'')
         then matches True (Cat (Opt ?G2 # ?tail)) (k + 4, ?t, caps) else [])"
    using matches_word [of "''lang''" "Opt ?G2 # ?tail" k s caps] unfolding l
    by (simp del: matches.simps)
  have 2: "filter ?P (matches True (Cat (Opt ?G2 # ?tail)) (k + 4, ?t, caps)) =
        (if same_word (take 4 ?t) (lit ''uage'') \<and> same_word (take 1 (drop 4 ?t)) (lit '' '') \<and>
            remainder (drop 1 (drop 4 ?t))
         then [(k + 4 + 4 + length (drop 4 ?t), [], (3, drop 1 (drop 4 ?t)) # (2, take 4 ?t) # caps)]
         else []) @
        (if same_word (take 1 ?t) (lit '' '') \<and> remainder (drop 1 ?t)
         then [(k + 4 + length ?t, [], (3, drop 1 ?t) # caps)] else [])"
    by (simp only: filter_matches_Opt filter_matches_Cat [of _ _ ?G2] uage_group lang_tail_state)
       (simp del: matches.simps)
  have 3: "same_word (take 9 s) (lit ''language '') \<longleftrightarrow>
        same_word (take 4 s) (lit ''lang'') \<and> same_word (take 4 ?t) (lit ''uage'') \<and>
        same_word (take 1 (drop 4 ?t)) (lit '' '')"
    using same_word_take_split [of "lit ''lang''" 4 "lit ''uage ''" 5 s]
          same_word_take_split [of "lit ''uage''" 4 "lit '' ''" 1 ?t]
    by (simp add: lit_def)
  have 4: "same_word (take 5 s) (lit ''lang '') \<longleftrightarrow>
        same_word (take 4 s) (lit ''lang'') \<and> same_word (take 1 ?t) (lit '' '')"
    using same_word_take_split [of "lit ''lang''" 4 "lit '' ''" 1 s]
    by (simp add: lit_def)
  have 5: "\<not> (same_word (take 4 ?t) (lit ''uage'') \<and> same_word (take 1 ?t) (lit '' ''))"
    by (cases ?t) (auto simp: same_word_def lit_def canon_codes take_Suc_conv_app_nth split: list.splits)
  have 6: "same_word (take 4 s) (lit ''lang'') \<Longrightarrow> k + 4 + length ?t = k + length s"
    using same_word_length [of "take 4 s" "lit ''lang''"] by (simp add: lit_def)
  have 7: "same_word (take 4 ?t) (lit ''uage'') \<Longrightarrow> 4 + length (drop 4 ?t) = length ?t"
    using same_word_length [of "take 4 ?t" "lit ''uage''"] by (simp add: lit_def)
  show ?thesis
    apply (simp only: 1 if_distrib [of "filter ?P"] filter.simps 2 3 4)
    using 5 6 7 apply (auto simp del: matches.simps)
    done
qed

lemma exec_langRegex:
  "map_option (\<lambda>caps. group caps 3) (exec langRegex text) =
     (if same_word (take 9 (strip_dashes text)) (lit ''language '') \<and>
         remainder (drop 9 (strip_dashes text))
        then Some (Str (drop 9 (strip_dashes text)))
      else if same_word (take 5 (strip_dashes text)) (lit ''lang '') \<and>
         remainder (drop 5 (strip_dashes text))
        then Some (Str (drop 5 (strip_dashes text)))
      else None)"
proof -
  let ?P = "\<lambda>st :: mstate. fst (snd st) = []"
  let ?G2 = "Group 2 (Cat [Char CHR ''u'', Char CHR ''a'', Char CHR ''g'', Char CHR ''e''])"
  let ?rs = "[Char CHR ''a'', Char CHR ''n'', Char CHR ''g'', Opt ?G2, Char CHR '' '', Group 3 (Plus Dot)]"
  have l: "canonicalize True (of_char CHR ''l'') \<noteq> (0x2D :: 16 word)" by (simp add: canonicalize_def)
  have src: "source langRegex =
      Cat [Bol, Group 1 (Cat (Opt (Char CHR ''-'') # Opt (Char CHR ''-'') # Char CHR ''l'' # ?rs)), Eol]"
    and ic: "ignoreCase langRegex = True"
    by (simp_all add: langRegex_def)
  note e = exec_anchored_group [OF src, of "text", unfolded ic]
  note d = optional_dashes [OF l, of ?P ?rs "text" "[]", unfolded lang_word Let_def]
  show ?thesis
    unfolding e d
    by (simp add: group_def del: matches.simps)
qed

lemma command_Help: "spec_command text = Help \<longleftrightarrow> exec helpRegex text \<noteq> None"
  using exec_helpRegex [of "text"] by (auto simp: spec_command_def Let_def)

lemma command_Language:
  "exec helpRegex text = None \<Longrightarrow>
   map_option (\<lambda>caps. group caps 3) (exec langRegex text) =
     (case spec_command text of Help \<Rightarrow> None | Language r \<Rightarrow> Some (Str r) | Plain \<Rightarrow> None)"
  using exec_helpRegex [of "text"]
  by (auto simp: exec_langRegex spec_command_def Let_def)

lemmas command_eval = spec_command_def strip_dashes_def same_word_def remainder_def canonicalize_def
  line_terminator_def lit_def Let_def

subsection \<open>The sample inputs\<close>

lemma sample_lookup:
  "get_or_add_user sample_env (Str (lit ''1001'')) [] = ([GetUser (Str (lit ''1001''))], Ok sample_user)"
  by (simp add: get_or_add_user_def handler_defs sample_defs lit_def)

lemma sample_user_props:
  "get_prop sample_user (lit ''psid'') = Inr (Str (lit ''1001''))"
  "get_prop sample_user (lit ''locale'') = Inr (Str (lit ''en''))"
  "get_prop sample_user (lit ''language'') = Inr (Str (lit ''fr''))"
  by (simp_all add: sample_user_def lookup_def lit_def)

lemma sample_sender:
  "get_prop sender (lit ''id'') = Inr (Str (lit ''1001''))"
  by (simp add: sender_def lookup_def lit_def)

lemma sample_send:
  "send sample_env psid t ty = Resolved Undefined"
  by (simp add: sample_env_def)

lemma postback_event_props:
  "get_prop (postback_event payload title) (lit ''sender'') = Inr sender"
  "get_prop (postback_event payload title) (lit ''postback'') =
     Inr (Obj [(lit ''payload'', Str (lit payload)), (lit ''title'', Str (lit title))])"
  "get_prop (Obj [(lit ''payload'', Str (lit payload)), (lit ''title'', Str (lit title))]) (lit ''payload'') =
     Inr (Str (lit payload))"
  "get_prop (Obj [(lit ''payload'', Str (lit payload)), (lit ''title'', Str (lit title))]) (lit ''title'') =
     Inr (Str (lit title))"
  by (simp_all add: postback_event_def lookup_def lit_def)

lemma attachment_event_props:
  "get_prop attachment_event (lit ''sender'') = Inr sender"
  "get_prop attachment_event (lit ''message'') =
     Inr (Obj [(lit ''text'', Str (lit ''help'')), (lit ''attachments'', Arr [Obj []])])"
  "get_prop (Obj [(lit ''text'', Str (lit ''help'')), (lit ''attachments'', Arr [Obj []])])
     (lit ''attachments'') = Inr (Arr [Obj []])"
  by (simp_all add: attachment_event_def lookup_def lit_def)

lemma empty_message_event_props:
  "get_prop empty_message_event (lit ''sender'') = Inr sender"
  "get_prop empty_message_event (lit ''message'') = Inr (Obj [])"
  "get_prop (Obj []) k = Inr Undefined"
  by (simp_all add: empty_message_event_def lookup_def lit_def)

lemma message_event_props:
  "get_prop (message_event t) (lit ''sender'') = Inr sender"
  "get_prop (message_event t) (lit ''message'') = Inr (Obj [(lit ''text'', Str (lit t))])"
  "get_prop (Obj [(lit ''text'', Str (lit t))]) (lit ''text'') = Inr (Str (lit t))"
  "get_prop (Obj [(lit ''text'', Str (lit t))]) (lit ''attachments'') = Inr Undefined"
  by (simp_all add: message_event_def lookup_def lit_def)

section \<open>Signature verification (C1, C10)\<close>

lemma verify_body:
  "verify cfg (req\<lparr>body := b\<rparr>) [] = ([], Ok ()) \<longleftrightarrow> verify cfg req [] = ([], Ok ())"
  by (auto simp: verify_def Let_def act_defs split: option.splits jsval.splits)

text \<open>
  C1, as stated, fails on a POST request without a body of JSON content type: it
  carries no signature, yet it is not checked, and the webhook route runs (on the
  empty object, which it rejects as not being a page). On a mismatch, too, what is
  logged after "Body:" is the empty object the parser has put into \<open>req.body\<close>, not
  the body of the request, which here parses to a delivery.
\<close>

theorem handle_post_skips_verification:
  "x_hub_signature bare_request = None \<and>
   handle_post (sample_config Null) bare_request =
     [Log (Str (lit ''Object is not a page'')), Log (Str (lit ''Data:'')), Log (Obj []),
      Respond 403 (Str (lit ''An error has occurred''))] \<and>
   json_parse (sample_config (delivery [message_event ''hi'']))
     (buf (sample_request ''sha1=1e'')) = Some (delivery [message_event ''hi'']) \<and>
   handle_post (sample_config (delivery [message_event ''hi''])) (sample_request ''sha1=1e'') =
     [Log (Str (lit ''Invalid signature'')), Log (Str (lit ''Signature: sha1=1e'')),
      Log (Str (lit ''Body:'')), Log (Obj []), Respond 403 (Str (lit ''Invalid signature''))]"
  by (simp add: handle_post_def run_route_def verify_def webhook_post_def error_handler_def
        sample_defs split_def index_def lookup_def lit_def act_defs Let_def)

text \<open>
  C1, amended. A POST request with a body of JSON content type whose
  \<open>x-hub-signature\<close> header is absent, or carries a digest (the piece after the first
  \<open>=\<close>) that differs from the hex HMAC of the raw body under the application secret,
  ends with status 403 and never reaches the webhook route: the whole trace of the
  request is the error response alone (no header, an empty header, a digest name the
  crypto library rejects) or, on a mismatch, the log lines of the callback (the
  signature among them) followed by the 403 "Invalid signature". The check reads the
  raw body only: the outcome is the same whatever the JSON parser would do. A POST
  request without such a body is not checked: the route runs on the empty object,
  logs it, responds 403 "An error has occurred" and calls no handler.
\<close>

theorem handle_post_rejects:
  "(has_json_body req \<and>
    (\<forall>signature expected. x_hub_signature req = Some signature \<longrightarrow>
       hmac cfg (hd (split signature (lit ''=''))) (APP_SECRET cfg) (buf req) = Some expected \<longrightarrow>
       index (split signature (lit ''='')) 1 \<noteq> Str expected) \<longrightarrow>
      handle_post cfg req =
        (case x_hub_signature req of
           None \<Rightarrow> [ErrorResponse 403]
         | Some signature \<Rightarrow>
             if signature = [] then [ErrorResponse 403]
             else (case hmac cfg (hd (split signature (lit ''=''))) (APP_SECRET cfg) (buf req) of
                     None \<Rightarrow> [ErrorResponse 403]
                   | Some expected \<Rightarrow>
                       [Log (Str (lit ''Invalid signature'')),
                        Log (Str (lit ''Signature: '' @ signature)),
                        Log (Str (lit ''Body:'')),
                        Log (Obj []),
                        Respond 403 (Str (lit ''Invalid signature''))])) \<and>
      handle_post (cfg\<lparr>json_parse := parse\<rparr>) req = handle_post cfg req) \<and>
   (\<not> has_json_body req \<longrightarrow>
      handle_post cfg req =
        [Log (Str (lit ''Object is not a page'')), Log (Str (lit ''Data:'')), Log (Obj []),
         Respond 403 (Str (lit ''An error has occurred''))])"
proof (rule conjI; rule impI)
  assume "\<not> has_json_body req"
  then show "handle_post cfg req =
        [Log (Str (lit ''Object is not a page'')), Log (Str (lit ''Data:'')), Log (Obj []),
         Respond 403 (Str (lit ''An error has occurred''))]"
    by (simp add: handle_post_def run_route_def webhook_post_def lookup_def act_defs Let_def)
next
  assume a: "has_json_body req \<and>
    (\<forall>signature expected. x_hub_signature req = Some signature \<longrightarrow>
       hmac cfg (hd (split signature (lit ''=''))) (APP_SECRET cfg) (buf req) = Some expected \<longrightarrow>
       index (split signature (lit ''='')) 1 \<noteq> Str expected)"
  then have j: "has_json_body req" by blast
  let ?goal = "handle_post cfg req =
        (case x_hub_signature req of
           None \<Rightarrow> [ErrorResponse 403]
         | Some signature \<Rightarrow>
             if signature = [] then [ErrorResponse 403]
             else (case hmac cfg (hd (split signature (lit ''=''))) (APP_SECRET cfg) (buf req) of
                     None \<Rightarrow> [ErrorResponse 403]
                   | Some expected \<Rightarrow>
                       [Log (Str (lit ''Invalid signature'')),
                        Log (Str (lit ''Signature: '' @ signature)),
                        Log (Str (lit ''Body:'')),
                        Log (Obj []),
                        Respond 403 (Str (lit ''Invalid signature''))])) \<and>
      handle_post (cfg\<lparr>json_parse := parse\<rparr>) req = handle_post cfg req"
  show ?goal
  proof (cases "x_hub_signature req")
    case None
    with j show ?thesis
      by (simp add: handle_post_def verify_def throw_def error_handler_def Let_def)
  next
    case (Some signature)
    note sig = Some
    show ?thesis
    proof (cases "signature = []")
      case True
      with sig j show ?thesis
        by (simp add: handle_post_def verify_def throw_def error_handler_def Let_def)
    next
      case False
      note m = index_split_0 [OF False, of "lit ''=''"]
      show ?thesis
      proof (cases "hmac cfg (hd (split signature (lit ''=''))) (APP_SECRET cfg) (buf req)")
        case None
        with sig False m j show ?thesis
          by (simp add: handle_post_def verify_def throw_def error_handler_def Let_def)
      next
        case (Some expected)
        with a sig have "index (split signature (lit ''='')) 1 \<noteq> Str expected" by blast
        with sig False m Some j show ?thesis
          by (simp add: handle_post_def verify_def Let_def act_defs error_handler_def)
      qed
    qed
  qed
qed

theorem handle_post_rejects_witness:
  "handle_post (sample_config Null) (sample_request ''sha1=1e'') =
     [Log (Str (lit ''Invalid signature'')), Log (Str (lit ''Signature: sha1=1e'')),
      Log (Str (lit ''Body:'')), Log (Obj []), Respond 403 (Str (lit ''Invalid signature''))] \<and>
   handle_post (sample_config Null) bare_request =
     [Log (Str (lit ''Object is not a page'')), Log (Str (lit ''Data:'')), Log (Obj []),
      Respond 403 (Str (lit ''An error has occurred''))]"
proof -
  have h: "has_json_body (sample_request ''sha1=1e'') \<and>
    (\<forall>signature expected.
      x_hub_signature (sample_request ''sha1=1e'') = Some signature \<longrightarrow>
      hmac (sample_config Null) (hd (split signature (lit ''=''))) (APP_SECRET (sample_config Null))
        (buf (sample_request ''sha1=1e'')) = Some expected \<longrightarrow>
      index (split signature (lit ''='')) 1 \<noteq> Str expected)"
    by (simp add: sample_defs split_def index_def lit_def)
  have b: "\<not> has_json_body bare_request" by (simp add: bare_request_def)
  from handle_post_rejects [of "sample_request ''sha1=1e''" "sample_config Null"] h
  have 1: "handle_post (sample_config Null) (sample_request ''sha1=1e'') =
     [Log (Str (lit ''Invalid signature'')), Log (Str (lit ''Signature: sha1=1e'')),
      Log (Str (lit ''Body:'')), Log (Obj []), Respond 403 (Str (lit ''Invalid signature''))]"
    by (simp add: sample_defs split_def lit_def)
  from handle_post_rejects [of bare_request "sample_config Null"] b
  have 2: "handle_post (sample_config Null) bare_request =
     [Log (Str (lit ''Object is not a page'')), Log (Str (lit ''Data:'')), Log (Obj []),
      Respond 403 (Str (lit ''An error has occurred''))]"
    by blast
  from 1 2 show ?thesis by blast
qed



section \<open>POST /webhook (C2, C3)\<close>

text \<open>
  C2, as stated, fails on a delivery that holds an unknown event: the signature is
  valid and the object is "page", yet the only response is the 403 of the unknown
  event. It fails as well on a "page" delivery without an \<open>entry\<close> array: the route
  throws before it responds, and the framework answers 500.
\<close>

theorem handle_post_unknown_event_only:
  "verify (sample_config (delivery [unknown_event])) (sample_request ''sha1=1f'') [] = ([], Ok ()) \<and>
   get_prop (delivery [unknown_event]) (lit ''object'') = Inr (Str (lit ''page'')) \<and>
   handle_post (sample_config (delivery [unknown_event])) (sample_request ''sha1=1f'') =
     [Log (Str (lit ''Unknown/unsupported event'')), Log (Str (lit ''Event:'')), Log unknown_event,
      Respond 403 (Str (lit ''Unknown/unsupported event''))] \<and>
   handle_post (sample_config (Obj [(lit ''object'', Str (lit ''page''))]))
     (sample_request ''sha1=1f'') = [ErrorResponse 500]"
  by (simp add: handle_post_def run_route_def verify_def webhook_post_def on_event_def
        error_handler_def sample_defs split_def index_def lookup_def lit_def act_defs Let_def)

text \<open>
  C2, amended. For a delivery (a POST request with a body of JSON content type) with
  a valid signature that the parser accepts: when the
  \<open>object\<close> field is not "page", the route logs the data and responds 403, and calls
  no handler. When it is "page", \<open>entry\<close> is an array, every entry has an array
  \<open>messaging\<close> and every event in it is a message or a postback event, the route calls
  the handler of every event, in order, and then responds 200 "Success", which is the
  only response of the request. The handlers are called, not awaited: what their
  outbound calls do is no part of the request's trace.
\<close>

theorem handle_post_delivery:
  assumes "has_json_body req"
      and "verify cfg req [] = ([], Ok ())"
      and "json_parse cfg (buf req) = Some data"
  shows "(\<forall>object. get_prop data (lit ''object'') = Inr object \<and> object \<noteq> Str (lit ''page'') \<longrightarrow>
            handle_post cfg req =
              [Log (Str (lit ''Object is not a page'')), Log (Str (lit ''Data:'')), Log data,
               Respond 403 (Str (lit ''An error has occurred''))]) \<and>
         (\<forall>entries.
            get_prop data (lit ''object'') = Inr (Str (lit ''page'')) \<and>
            get_prop data (lit ''entry'') = Inr (Arr entries) \<and>
            (\<forall>entry\<in>set entries. \<exists>events. entry_events entry = Some events \<and>
               (\<forall>event\<in>set events. event_task event \<noteq> None)) \<longrightarrow>
            handle_post cfg req =
              map Spawn (concat (map entry_tasks entries)) @ [Respond 200 (Str (lit ''Success''))] \<and>
            filter is_response (handle_post cfg req) = [Respond 200 (Str (lit ''Success''))])"
  using assms webhook_post_known [of data]
        verify_body [where cfg = cfg and req = req and b = "Obj []"]
  by (auto simp: handle_post_def run_route_def Let_def filter_response_spawn)

theorem handle_post_delivery_witness:
  "handle_post (sample_config (Arr [])) (sample_request ''sha1=1f'') =
     [Log (Str (lit ''Object is not a page'')), Log (Str (lit ''Data:'')), Log (Arr []),
      Respond 403 (Str (lit ''An error has occurred''))] \<and>
   handle_post
     (sample_config (delivery [message_event ''hi'', postback_event ''get_help'' ''Help'']))
     (sample_request ''sha1=1f'') =
     [Spawn (ReceivedMessage (message_event ''hi'')),
      Spawn (ReceivedPostback (postback_event ''get_help'' ''Help'')),
      Respond 200 (Str (lit ''Success''))]"
proof -
  have v: "verify (sample_config data) (sample_request ''sha1=1f'') [] = ([], Ok ())" for data
    by (simp add: verify_def sample_defs split_def index_def lit_def act_defs)
  have p: "json_parse (sample_config data) (buf (sample_request ''sha1=1f'')) = Some data" for data
    by (simp add: sample_defs)
  have j: "has_json_body (sample_request ''sha1=1f'')"
    by (simp add: sample_defs)
  have k: "\<forall>entry\<in>set [Obj [(lit ''messaging'', Arr [message_event ''hi'', postback_event ''get_help'' ''Help''])]].
             \<exists>events. entry_events entry = Some events \<and> (\<forall>event\<in>set events. event_task event \<noteq> None)"
    by (simp add: entry_events_def event_task_def sample_defs lookup_def lit_def)
  have t: "concat (map entry_tasks [Obj [(lit ''messaging'', Arr [message_event ''hi'', postback_event ''get_help'' ''Help''])]])
           = [ReceivedMessage (message_event ''hi''), ReceivedPostback (postback_event ''get_help'' ''Help'')]"
    by (simp add: entry_tasks_def entry_events_def event_task_def sample_defs lookup_def lit_def map_filter_simps)
  have o: "get_prop (delivery [message_event ''hi'', postback_event ''get_help'' ''Help'']) (lit ''object'') = Inr (Str (lit ''page''))"
          "get_prop (delivery [message_event ''hi'', postback_event ''get_help'' ''Help'']) (lit ''entry'') =
             Inr (Arr [Obj [(lit ''messaging'', Arr [message_event ''hi'', postback_event ''get_help'' ''Help''])]])"
    by (simp_all add: delivery_def lookup_def lit_def)
  from handle_post_delivery [OF j v p, of "Arr []"]
  have 1: "handle_post (sample_config (Arr [])) (sample_request ''sha1=1f'') =
     [Log (Str (lit ''Object is not a page'')), Log (Str (lit ''Data:'')), Log (Arr []),
      Respond 403 (Str (lit ''An error has occurred''))]" by simp
  from handle_post_delivery [OF j v p, of "delivery [message_event ''hi'', postback_event ''get_help'' ''Help'']"] o k t
  have 2: "handle_post
     (sample_config (delivery [message_event ''hi'', postback_event ''get_help'' ''Help'']))
     (sample_request ''sha1=1f'') =
     [Spawn (ReceivedMessage (message_event ''hi'')),
      Spawn (ReceivedPostback (postback_event ''get_help'' ''Help'')),
      Respond 200 (Str (lit ''Success''))]" by simp
  from 1 2 show ?thesis by simp
qed

text \<open>
  C3. Processing does not halt at an unknown event: \<open>return false\<close> leaves the
  callback of the inner \<open>forEach\<close> only. After the 403 the loop goes on, the message
  event that follows is handed to its handler, and the route ends in the exception of
  its second response.
\<close>

theorem webhook_post_continues_after_unknown_event:
  "webhook_post (delivery [unknown_event, message_event ''hi'']) [] =
     ([Log (Str (lit ''Unknown/unsupported event'')), Log (Str (lit ''Event:'')), Log unknown_event,
       Respond 403 (Str (lit ''Unknown/unsupported event'')),
       Spawn (ReceivedMessage (message_event ''hi''))],
      Threw HeadersSent) \<and>
   handle_post (sample_config (delivery [unknown_event, message_event ''hi'']))
     (sample_request ''sha1=1f'') =
     [Log (Str (lit ''Unknown/unsupported event'')), Log (Str (lit ''Event:'')), Log unknown_event,
      Respond 403 (Str (lit ''Unknown/unsupported event'')),
      Spawn (ReceivedMessage (message_event ''hi''))]"
  by (simp add: handle_post_def run_route_def verify_def webhook_post_def on_event_def
        error_handler_def sample_defs split_def index_def lookup_def lit_def act_defs Let_def)

section \<open>Event handlers (C4, C5, C6, C8, C9)\<close>

text \<open>
  The theorems on a handler share their premises: the event has a sender with an id,
  the two indicator calls resolve, and the user lookup yields a user (found or newly
  added) after the calls \<open>lookups\<close>.
\<close>

text \<open>
  C4, as stated, fails on a message event without attachments whose text is not a
  string (here a number; a message without a text behaves alike): after the indicator
  calls and the user lookup the handler throws a TypeError at \<open>text.match\<close>, and
  neither the help text nor \<open>changeLanguage\<close> nor \<open>translate\<close> is reached.
\<close>

theorem receivedMessage_text_not_a_string:
  "get_prop numeric_message_event (lit ''message'') = Inr (Obj [(lit ''text'', Num 42)]) \<and>
   get_prop (Obj [(lit ''text'', Num 42)]) (lit ''attachments'') = Inr Undefined \<and>
   receivedMessage sample_env numeric_message_event [] =
     (indicators (Str (lit ''1001'')) @ [GetUser (Str (lit ''1001''))], Threw TypeError)"
  by (simp add: receivedMessage_def get_or_add_user_def handler_defs sample_defs lookup_def
        lit_def)

text \<open>
  C4, amended. A message event without attachments whose text is a string: the help pattern
  is tried first, then the language pattern, both against the whole text and without
  regard to case. The help pattern matches an optional \<open>-\<close> or \<open>--\<close> followed by
  "help", and the help text of the user's locale is sent; the language pattern matches
  an optional \<open>-\<close> or \<open>--\<close>, "lang" or "language", one space and a remainder (at
  least one code unit, no line terminator), and \<open>changeLanguage\<close> is called with
  the user, the remainder as it stands and the user's locale; any other text goes to
  \<open>translate\<close> with the user's language and locale. What the call resolves to is
  sent to the user.
\<close>

theorem receivedMessage_commands:
  assumes "get_prop event (lit ''sender'') = Inr sender0"
      and "get_prop sender0 (lit ''id'') = Inr senderID"
      and "get_prop event (lit ''message'') = Inr message"
      and "get_prop message (lit ''text'') = Inr (Str text)"
      and "get_prop message (lit ''attachments'') = Inr attachments"
      and "\<not> truthy attachments"
      and "send env senderID Null (Some (lit ''mark_seen'')) = Resolved r1"
      and "send env senderID Null (Some (lit ''typing_on'')) = Resolved r2"
      and "get_or_add_user env senderID [] = (lookups, Ok user)"
      and "get_prop user (lit ''psid'') = Inr psid"
      and "get_prop user (lit ''locale'') = Inr locale"
      and "get_prop user (lit ''language'') = Inr language"
  shows "fst (receivedMessage env event []) =
           indicators senderID @ lookups @
           (case spec_command text of
              Help \<Rightarrow> [Send psid (localeStrings env locale (lit ''help'')) None]
            | Language rest \<Rightarrow>
                ChangeLanguage user (Str rest) locale #
                (case changeLanguage env user (Str rest) locale of
                   Resolved response \<Rightarrow> [Send psid response None]
                 | Rejected reason \<Rightarrow> [])
            | Plain \<Rightarrow>
                Translate (Str text) language locale #
                (case translate env (Str text) language locale of
                   Resolved response \<Rightarrow> [Send psid response None]
                 | Rejected reason \<Rightarrow> []))"
proof -
  note u = get_or_add_user_at [OF assms(9)]
  note a = assms(1-8,10-12)
  show ?thesis
  proof (cases "exec helpRegex text")
    case (Some caps)
    then have "spec_command text = Help" using command_Help [of "text"] by simp
    with Some a u show ?thesis
      by (auto simp: receivedMessage_def handler_defs split: outcome.splits)
  next
    case None
    note h = None
    then have nh: "spec_command text \<noteq> Help" using command_Help [of "text"] by simp
    show ?thesis
    proof (cases "exec langRegex text")
      case None
      with command_Language [OF h] nh have "spec_command text = Plain"
        by (cases "spec_command text") simp_all
      with h None a u show ?thesis
        by (auto simp: receivedMessage_def handler_defs split: outcome.splits)
    next
      case (Some caps)
      with command_Language [OF h] obtain rest
        where "spec_command text = Language rest" "group caps 3 = Str rest"
        by (cases "spec_command text") simp_all
      with h Some a u show ?thesis
        by (auto simp: receivedMessage_def handler_defs split: outcome.splits)
    qed
  qed
qed

theorem receivedMessage_commands_witness:
  "fst (receivedMessage sample_env (message_event ''-HELP'') []) =
     indicators (Str (lit ''1001'')) @ [GetUser (Str (lit ''1001''))] @
     [Send (Str (lit ''1001'')) (Str (lit ''help'')) None] \<and>
   fst (receivedMessage sample_env (message_event ''--Language  fr '') []) =
     indicators (Str (lit ''1001'')) @ [GetUser (Str (lit ''1001''))] @
     [ChangeLanguage sample_user (Str (lit '' fr '')) (Str (lit ''en'')),
      Send (Str (lit ''1001'')) (Str (lit ''changed'')) None] \<and>
   fst (receivedMessage sample_env (message_event ''lang '') []) =
     indicators (Str (lit ''1001'')) @ [GetUser (Str (lit ''1001''))] @
     [Translate (Str (lit ''lang '')) (Str (lit ''fr'')) (Str (lit ''en'')),
      Send (Str (lit ''1001'')) (Str (lit ''bonjour'')) None]"
proof -
  have f: "\<not> truthy Undefined" by simp
  note w = receivedMessage_commands
    [OF message_event_props(1) sample_sender message_event_props(2,3,4) f sample_send sample_send
        sample_lookup sample_user_props]
  have c: "spec_command (lit ''-HELP'') = Help"
          "spec_command (lit ''--Language  fr '') = Language (lit '' fr '')"
          "spec_command (lit ''lang '') = Plain"
    by (simp_all add: command_eval)
  have e: "localeStrings sample_env (Str (lit ''en'')) (lit ''help'') = Str (lit ''help'')"
          "changeLanguage sample_env sample_user (Str (lit '' fr '')) (Str (lit ''en'')) =
             Resolved (Str (lit ''changed''))"
          "translate sample_env (Str (lit ''lang '')) (Str (lit ''fr'')) (Str (lit ''en'')) =
             Resolved (Str (lit ''bonjour''))"
    by (simp_all add: sample_env_def)
  from w [of "''-HELP''"] w [of "''--Language  fr ''"] w [of "''lang ''"] c e
  show ?thesis by simp
qed

text \<open>
  C5. A postback event, by payload: "get_started" and "get_help" send the help text of
  the user's locale; "change_language" takes the second piece of the title split at
  "--language " (for a title whose first delimiter is followed by a code free of the
  delimiter, that code), calls \<open>changeLanguage(user, language, user.locale)\<close> and
  sends what it resolves to; any other payload is logged with the event, and nothing
  is sent to the user.
\<close>

theorem receivedPostback_branches:
  assumes "get_prop event (lit ''sender'') = Inr sender0"
      and "get_prop sender0 (lit ''id'') = Inr senderID"
      and "get_prop event (lit ''postback'') = Inr postback"
      and "get_prop postback (lit ''payload'') = Inr payload"
      and "send env senderID Null (Some (lit ''mark_seen'')) = Resolved r1"
      and "send env senderID Null (Some (lit ''typing_on'')) = Resolved r2"
      and "get_or_add_user env senderID [] = (lookups, Ok user)"
      and "get_prop user (lit ''psid'') = Inr psid"
      and "get_prop user (lit ''locale'') = Inr locale"
  shows "(payload = Str (lit ''get_started'') \<or> payload = Str (lit ''get_help'') \<longrightarrow>
            fst (receivedPostback env event []) =
              indicators senderID @ lookups @
              [Send psid (localeStrings env locale (lit ''help'')) None]) \<and>
         (payload = Str (lit ''change_language'') \<longrightarrow>
            (\<forall>title response.
               get_prop postback (lit ''title'') = Inr (Str title) \<and>
               changeLanguage env user (index (split title (lit ''--language '')) 1) locale =
                 Resolved response \<longrightarrow>
               fst (receivedPostback env event []) =
                 indicators senderID @ lookups @
                 [ChangeLanguage user (index (split title (lit ''--language '')) 1) locale,
                  Send psid response None])) \<and>
         (\<forall>before code.
            (\<forall>i<length before. \<not> occurs_at (lit ''--language '') (before @ lit ''--language '' @ code) i) \<and>
            (\<forall>i<length code. \<not> occurs_at (lit ''--language '') code i) \<longrightarrow>
            index (split (before @ lit ''--language '' @ code) (lit ''--language '')) 1 = Str code) \<and>
         (payload \<noteq> Str (lit ''get_started'') \<and> payload \<noteq> Str (lit ''get_help'') \<and>
          payload \<noteq> Str (lit ''change_language'') \<longrightarrow>
            receivedPostback env event [] =
              (indicators senderID @ lookups @
               [Log (Str (lit ''Unknown/unsupported payload'')), Log (Str (lit ''Event:'')), Log event],
               Ok ()) \<and>
            \<not> list_ex is_reply (fst (receivedPostback env event [])))"
proof (intro conjI impI allI)
  note u = get_or_add_user_at [OF assms(7)]
  {
    assume "payload = Str (lit ''get_started'') \<or> payload = Str (lit ''get_help'')"
    then show "fst (receivedPostback env event []) =
              indicators senderID @ lookups @
              [Send psid (localeStrings env locale (lit ''help'')) None]"
      using assms(1-6,8,9) u
      by (auto simp: receivedPostback_def handler_defs split: outcome.splits)
  }
  {
    fix title response
    assume "payload = Str (lit ''change_language'')"
       and "get_prop postback (lit ''title'') = Inr (Str title) \<and>
            changeLanguage env user (index (split title (lit ''--language '')) 1) locale = Resolved response"
    then show "fst (receivedPostback env event []) =
                 indicators senderID @ lookups @
                 [ChangeLanguage user (index (split title (lit ''--language '')) 1) locale,
                  Send psid response None]"
      using assms(1-6,8,9) u
      by (auto simp: receivedPostback_def handler_defs lit_def Let_def split: outcome.splits)
  }
  {
    fix before code
    assume "(\<forall>i<length before. \<not> occurs_at (lit ''--language '') (before @ lit ''--language '' @ code) i) \<and>
            (\<forall>i<length code. \<not> occurs_at (lit ''--language '') code i)"
    then have "split (before @ lit ''--language '' @ code) (lit ''--language '') = [before, code]"
      using split_two [of "lit ''--language ''" before code] by (simp add: lit_def)
    then show "index (split (before @ lit ''--language '' @ code) (lit ''--language '')) 1 = Str code"
      by (simp add: index_def)
  }
  {
    assume other: "payload \<noteq> Str (lit ''get_started'') \<and> payload \<noteq> Str (lit ''get_help'') \<and>
          payload \<noteq> Str (lit ''change_language'')"
    then show r: "receivedPostback env event [] =
              (indicators senderID @ lookups @
               [Log (Str (lit ''Unknown/unsupported payload'')), Log (Str (lit ''Event:'')), Log event],
               Ok ())"
      using assms(1-6) u
      by (simp add: receivedPostback_def handler_defs)
    have "\<not> list_ex is_reply lookups"
      using get_or_add_user_no_reply [of env senderID] assms(7) by simp
    with r show "\<not> list_ex is_reply (fst (receivedPostback env event []))"
      by (simp add: indicators_def)
  }
qed

theorem receivedPostback_branches_witness:
  "fst (receivedPostback sample_env (postback_event ''get_help'' ''Help'') []) =
     indicators (Str (lit ''1001'')) @ [GetUser (Str (lit ''1001''))] @
     [Send (Str (lit ''1001'')) (Str (lit ''help'')) None] \<and>
   fst (receivedPostback sample_env (postback_event ''change_language'' ''German --language de'') []) =
     indicators (Str (lit ''1001'')) @ [GetUser (Str (lit ''1001''))] @
     [ChangeLanguage sample_user (Str (lit ''de'')) (Str (lit ''en'')),
      Send (Str (lit ''1001'')) (Str (lit ''changed'')) None] \<and>
   index (split (lit ''German '' @ lit ''--language '' @ lit ''de'') (lit ''--language '')) 1 =
     Str (lit ''de'') \<and>
   receivedPostback sample_env (postback_event ''share'' ''Share'') [] =
     (indicators (Str (lit ''1001'')) @ [GetUser (Str (lit ''1001''))] @
      [Log (Str (lit ''Unknown/unsupported payload'')), Log (Str (lit ''Event:'')),
       Log (postback_event ''share'' ''Share'')], Ok ())"
proof -
  note b = receivedPostback_branches
    [OF postback_event_props(1) sample_sender postback_event_props(2,3) sample_send sample_send
        sample_lookup sample_user_props(1,2)]
  have o: "(\<forall>i<length (lit ''German ''). \<not> occurs_at (lit ''--language '')
               (lit ''German '' @ lit ''--language '' @ lit ''de'') i) \<and>
           (\<forall>i<length (lit ''de''). \<not> occurs_at (lit ''--language '') (lit ''de'') i)"
    by (simp add: occurs_at_def lit_def All_less_Suc)
  have s: "index (split (lit ''German --language de'') (lit ''--language '')) 1 = Str (lit ''de'')"
    by (simp add: split_def index_def lit_def)
  have c: "changeLanguage sample_env sample_user (Str (lit ''de'')) (Str (lit ''en'')) =
             Resolved (Str (lit ''changed''))"
    by (simp add: sample_env_def)
  have l: "localeStrings sample_env (Str (lit ''en'')) (lit ''help'') = Str (lit ''help'')"
    by (simp add: sample_env_def)
  from b [of "''get_help''" "''Help''"] l have 1:
    "fst (receivedPostback sample_env (postback_event ''get_help'' ''Help'') []) =
     indicators (Str (lit ''1001'')) @ [GetUser (Str (lit ''1001''))] @
     [Send (Str (lit ''1001'')) (Str (lit ''help'')) None]"
    by simp
  from b [of "''change_language''" "''German --language de''"] s c postback_event_props(4) have 2:
    "fst (receivedPostback sample_env (postback_event ''change_language'' ''German --language de'') []) =
     indicators (Str (lit ''1001'')) @ [GetUser (Str (lit ''1001''))] @
     [ChangeLanguage sample_user (Str (lit ''de'')) (Str (lit ''en'')),
      Send (Str (lit ''1001'')) (Str (lit ''changed'')) None]"
    by simp
  from b [of "''share''" "''Share''"] o have 3:
    "index (split (lit ''German '' @ lit ''--language '' @ lit ''de'') (lit ''--language '')) 1 =
     Str (lit ''de'')" by blast
  from b [of "''share''" "''Share''"] have 4:
    "receivedPostback sample_env (postback_event ''share'' ''Share'') [] =
     (indicators (Str (lit ''1001'')) @ [GetUser (Str (lit ''1001''))] @
      [Log (Str (lit ''Unknown/unsupported payload'')), Log (Str (lit ''Event:'')),
       Log (postback_event ''share'' ''Share'')], Ok ())"
    by (simp add: lit_def)
  from 1 2 3 4 show ?thesis by blast
qed

text \<open>
  C6. A message event whose message carries attachments is answered with the
  "attachments" text of the user's locale, sent to the sender, and with nothing else:
  the help, language and translate branches are not reached, whatever text the
  message holds.
\<close>

theorem receivedMessage_attachments:
  assumes "get_prop event (lit ''sender'') = Inr sender0"
      and "get_prop sender0 (lit ''id'') = Inr senderID"
      and "get_prop event (lit ''message'') = Inr message"
      and "get_prop message (lit ''attachments'') = Inr attachments"
      and "truthy attachments"
      and "send env senderID Null (Some (lit ''mark_seen'')) = Resolved r1"
      and "send env senderID Null (Some (lit ''typing_on'')) = Resolved r2"
      and "get_or_add_user env senderID [] = (lookups, Ok user)"
      and "get_prop user (lit ''locale'') = Inr locale"
  shows "fst (receivedMessage env event []) =
           indicators senderID @ lookups @
           [Send senderID (localeStrings env locale (lit ''attachments'')) None]"
proof -
  note u = get_or_add_user_at [OF assms(8)]
  from assms(4,5) obtain kvs where "message = Obj kvs" by (cases message) auto
  then have "get_prop message (lit ''text'') = Inr (lookup kvs (lit ''text''))" by simp
  with assms(1-7,9) u show ?thesis
    by (auto simp: receivedMessage_def handler_defs Let_def split: outcome.splits)
qed

theorem receivedMessage_attachments_witness:
  "fst (receivedMessage sample_env attachment_event []) =
     indicators (Str (lit ''1001'')) @ [GetUser (Str (lit ''1001''))] @
     [Send (Str (lit ''1001'')) (Str (lit ''attachments'')) None]"
proof -
  have t: "truthy (Arr [Obj []])" by simp
  have l: "localeStrings sample_env (Str (lit ''en'')) (lit ''attachments'') = Str (lit ''attachments'')"
    by (simp add: sample_env_def)
  from receivedMessage_attachments
    [OF attachment_event_props(1) sample_sender attachment_event_props(2,3) t sample_send sample_send
        sample_lookup sample_user_props(2)] l
  show ?thesis by simp
qed

text \<open>
  C8, as stated, fails: when the "mark seen" call rejects, the handler stops at it.
  There is no "typing on" call, no user lookup and no response.
\<close>

theorem receivedMessage_stops_when_send_rejects:
  "receivedMessage failing_env (message_event ''hi'') [] =
     ([Send (Str (lit ''1001'')) Null (Some (lit ''mark_seen''))],
      Threw (Reason (Str (lit ''ECONNRESET''))))"
  by (simp add: receivedMessage_def seq_def lift_def await_send_def await_def sample_defs
        lookup_def lit_def)

text \<open>
  C8, amended. Both handlers call \<open>send(sender, null, 'mark_seen')\<close> first and
  \<open>send(sender, null, 'typing_on')\<close> only once the first call has resolved; whatever
  the two calls resolve to, the user lookup comes next. Each call is awaited with no
  handler for its failure: when one rejects, the event's processing ends there with
  that rejection.
\<close>

theorem indicator_calls_awaited:
  assumes "get_prop event (lit ''sender'') = Inr sender0"
      and "get_prop sender0 (lit ''id'') = Inr senderID"
      and "(handler = receivedMessage \<and> get_prop event (lit ''message'') = Inr message \<and>
            get_prop message (lit ''text'') = Inr text) \<or>
           (handler = receivedPostback \<and> get_prop event (lit ''postback'') = Inr postback \<and>
            get_prop postback (lit ''payload'') = Inr payload)"
  shows "(\<forall>reason. send env senderID Null (Some (lit ''mark_seen'')) = Rejected reason \<longrightarrow>
            handler env event [] =
              ([Send senderID Null (Some (lit ''mark_seen''))], Threw (Reason reason))) \<and>
         (\<forall>v reason. send env senderID Null (Some (lit ''mark_seen'')) = Resolved v \<and>
            send env senderID Null (Some (lit ''typing_on'')) = Rejected reason \<longrightarrow>
            handler env event [] = (indicators senderID, Threw (Reason reason))) \<and>
         (\<forall>v w. send env senderID Null (Some (lit ''mark_seen'')) = Resolved v \<and>
            send env senderID Null (Some (lit ''typing_on'')) = Resolved w \<longrightarrow>
            prefix (indicators senderID @ [GetUser senderID]) (fst (handler env event [])))"
proof (intro conjI allI impI)
  fix reason
  assume "send env senderID Null (Some (lit ''mark_seen'')) = Rejected reason"
  with assms show "handler env event [] =
      ([Send senderID Null (Some (lit ''mark_seen''))], Threw (Reason reason))"
    by (auto simp: receivedMessage_def receivedPostback_def seq_lift_Inr seq_await_send_Rejected)
next
  fix v reason
  assume "send env senderID Null (Some (lit ''mark_seen'')) = Resolved v \<and>
          send env senderID Null (Some (lit ''typing_on'')) = Rejected reason"
  with assms show "handler env event [] = (indicators senderID, Threw (Reason reason))"
    by (auto simp: receivedMessage_def receivedPostback_def seq_lift_Inr seq_await_send_Rejected
          seq_await_send_Resolved indicators_def)
next
  fix v w
  assume "send env senderID Null (Some (lit ''mark_seen'')) = Resolved v \<and>
          send env senderID Null (Some (lit ''typing_on'')) = Resolved w"
  with assms show "prefix (indicators senderID @ [GetUser senderID]) (fst (handler env event []))"
    using receivedMessage_after_indicators [of event sender0 senderID message "text" env v w]
          receivedPostback_after_indicators [of event sender0 senderID postback payload env v w]
    by blast
qed

theorem indicator_calls_awaited_witness:
  "receivedMessage failing_env (message_event ''hi'') [] =
     ([Send (Str (lit ''1001'')) Null (Some (lit ''mark_seen''))],
      Threw (Reason (Str (lit ''ECONNRESET'')))) \<and>
   prefix (indicators (Str (lit ''1001'')) @ [GetUser (Str (lit ''1001''))])
     (fst (receivedPostback sample_env (postback_event ''get_help'' ''Help'') []))"
proof -
  have f: "send failing_env psid t ty = Rejected (Str (lit ''ECONNRESET''))" for psid t ty
    by (simp add: failing_env_def sample_env_def)
  have m: "(receivedMessage = receivedMessage \<and>
            get_prop (message_event ''hi'') (lit ''message'') = Inr (Obj [(lit ''text'', Str (lit ''hi''))]) \<and>
            get_prop (Obj [(lit ''text'', Str (lit ''hi''))]) (lit ''text'') = Inr (Str (lit ''hi''))) \<or>
           (receivedMessage = receivedPostback \<and>
            get_prop (message_event ''hi'') (lit ''postback'') = Inr Undefined \<and>
            get_prop Undefined (lit ''payload'') = Inr Undefined)"
    by (simp add: message_event_def lookup_def lit_def)
  have p: "(receivedPostback = receivedMessage \<and>
            get_prop (postback_event ''get_help'' ''Help'') (lit ''message'') = Inr Undefined \<and>
            get_prop Undefined (lit ''text'') = Inr Undefined) \<or>
           (receivedPostback = receivedPostback \<and>
            get_prop (postback_event ''get_help'' ''Help'') (lit ''postback'') =
              Inr (Obj [(lit ''payload'', Str (lit ''get_help'')), (lit ''title'', Str (lit ''Help''))]) \<and>
            get_prop (Obj [(lit ''payload'', Str (lit ''get_help'')), (lit ''title'', Str (lit ''Help''))])
              (lit ''payload'') = Inr (Str (lit ''get_help'')))"
    by (simp add: postback_event_def lookup_def lit_def)
  from indicator_calls_awaited [OF message_event_props(1) sample_sender m, of failing_env] f
  have 1: "receivedMessage failing_env (message_event ''hi'') [] =
     ([Send (Str (lit ''1001'')) Null (Some (lit ''mark_seen''))],
      Threw (Reason (Str (lit ''ECONNRESET''))))"
    by blast
  from indicator_calls_awaited [OF postback_event_props(1) sample_sender p, of sample_env] sample_send
  have 2: "prefix (indicators (Str (lit ''1001'')) @ [GetUser (Str (lit ''1001''))])
     (fst (receivedPostback sample_env (postback_event ''get_help'' ''Help'') []))"
    by blast
  from 1 2 show ?thesis by blast
qed

text \<open>
  C9. A message event whose message has neither a text nor attachments: after the two
  indicator calls and the user lookup the handler throws a TypeError at
  \<open>text.match\<close>; the rejected promise reaches the \<open>unhandledRejection\<close> listener only,
  which logs it, and nothing is sent to the user.
\<close>

theorem receivedMessage_without_text:
  assumes "get_prop event (lit ''sender'') = Inr sender0"
      and "get_prop sender0 (lit ''id'') = Inr senderID"
      and "get_prop event (lit ''message'') = Inr message"
      and "get_prop message (lit ''text'') = Inr Undefined"
      and "get_prop message (lit ''attachments'') = Inr Undefined"
      and "send env senderID Null (Some (lit ''mark_seen'')) = Resolved r1"
      and "send env senderID Null (Some (lit ''typing_on'')) = Resolved r2"
      and "get_or_add_user env senderID [] = (lookups, Ok user)"
  shows "receivedMessage env event [] = (indicators senderID @ lookups, Threw TypeError) \<and>
         run_task env (ReceivedMessage event) =
           indicators senderID @ lookups @
           [Log (Str (lit ''Unhandled Promise rejection'')), Log (Str (lit ''Error:'')),
            LogError TypeError] \<and>
         \<not> list_ex is_reply (run_task env (ReceivedMessage event))"
proof -
  note u = get_or_add_user_at [OF assms(8)]
  from assms(1-7) u
  have r: "receivedMessage env event [] = (indicators senderID @ lookups, Threw TypeError)"
    by (simp add: receivedMessage_def handler_defs)
  then have t: "run_task env (ReceivedMessage event) =
           indicators senderID @ lookups @
           [Log (Str (lit ''Unhandled Promise rejection'')), Log (Str (lit ''Error:'')),
            LogError TypeError]"
    by (simp add: detached_def unhandledRejection_def handler_defs)
  have "\<not> list_ex is_reply lookups"
    using get_or_add_user_no_reply [of env senderID] assms(8) by simp
  with r t show ?thesis by (simp add: indicators_def)
qed

theorem receivedMessage_without_text_witness:
  "receivedMessage sample_env empty_message_event [] =
     (indicators (Str (lit ''1001'')) @ [GetUser (Str (lit ''1001''))], Threw TypeError) \<and>
   run_task sample_env (ReceivedMessage empty_message_event) =
     indicators (Str (lit ''1001'')) @ [GetUser (Str (lit ''1001''))] @
     [Log (Str (lit ''Unhandled Promise rejection'')), Log (Str (lit ''Error:'')),
      LogError TypeError]"
  using receivedMessage_without_text
    [OF empty_message_event_props(1) sample_sender empty_message_event_props(2,3,3) sample_send
        sample_send sample_lookup]
  by simp

section \<open>GET /webhook (C7)\<close>



end
